theory Spec2Isabelle
  imports Complex_Main "HOL-Library.Word" "HOL-Library.Sublist"
begin

chapter \<open>The model\<close>

section \<open>Numbers\<close>

text \<open>
  A JavaScript number is an IEEE-754 double. A finite double is modelled by the real
  number it denotes, and every arithmetic operation of the source by the exact operation
  followed by \<open>dbl\<close>, the rounding to the nearest double, ties going to the even
  significand (the 53-bit significand of a binary64, with the gradual underflow below
  \<open>2 powr - 1022\<close>): \<open>quantum x\<close> is the spacing of the doubles around \<open>x\<close>. The exponent
  is not bounded above in \<open>dbl\<close>: a rounded result of magnitude \<open>2 ^ 1024\<close> or more stands
  for the runtime's \<open>Infinity\<close> or \<open>-Infinity\<close>, which \<open>finite_double\<close> detects. \<open>NaN\<close> and
  infinite arguments are outside the model.

  \<open>Math.round x\<close> is the integer nearest to \<open>x\<close>, halves going up; it is exact.

  The withdrawal scheduler of \<open>page.tsx\<close> is modelled over exact reals instead (its
  properties are inequalities that hold with a margin of minutes on timestamps in
  milliseconds).
\<close>

definition js_round :: "real \<Rightarrow> int" where
  "js_round x = \<lfloor>x + 1 / 2\<rfloor>"

definition round_even :: "real \<Rightarrow> int" where
  "round_even y =
     (let f = \<lfloor>y\<rfloor>; r = y - real_of_int f
      in if r < 1 / 2 then f else if 1 / 2 < r then f + 1 else if even f then f else f + 1)"

definition binade :: "real \<Rightarrow> int" where
  "binade x = max \<lfloor>log 2 \<bar>x\<bar>\<rfloor> (- 1022)"

definition quantum :: "real \<Rightarrow> real" where
  "quantum x = 2 powr (real_of_int (binade x) - 52)"

definition dbl :: "real \<Rightarrow> real" where
  "dbl x = (if x = 0 then 0 else quantum x * real_of_int (round_even (x / quantum x)))"

definition fadd :: "real \<Rightarrow> real \<Rightarrow> real" where
  "fadd a b = dbl (a + b)"

definition fsub :: "real \<Rightarrow> real \<Rightarrow> real" where
  "fsub a b = dbl (a - b)"

definition fmul :: "real \<Rightarrow> real \<Rightarrow> real" where
  "fmul a b = dbl (a * b)"

definition fdiv :: "real \<Rightarrow> real \<Rightarrow> real" where
  "fdiv a b = dbl (a / b)"

definition finite_double :: "real \<Rightarrow> bool" where
  "finite_double x \<longleftrightarrow> \<bar>x\<bar> < 2 ^ 1024"

section \<open>PrivacyScorer (privacy-utils.ts)\<close>

text \<open>
  The four inputs of \<open>calculatePrivacyScore\<close> are numbers: any finite double, also a
  negative or a fractional one. The decimal literals \<open>0.3\<close>, \<open>0.25\<close> and \<open>0.2\<close> of the
  source are the doubles nearest to them. \<open>weightedScore\<close> is the argument of
  \<open>Math.round\<close>.

  The result is \<open>None\<close> where the source returns no finite number: a negative
  \<open>uniqueAddresses\<close> divided by a \<open>splitCount\<close> of zero is \<open>-Infinity\<close>, and so is a
  component that overflows (a component that overflows upwards under \<open>Math.min\<close> is
  100 in the source and in the model alike). The four components being finite, no
  product by a weight and no partial sum overflows, the weights adding up to 1.
\<close>

record PrivacyConfig =
  splitCount :: real
  uniqueAddresses :: real
  minAgingHours :: real
  poolSize :: real

definition splitScore :: "PrivacyConfig \<Rightarrow> real" where
  "splitScore config = min 100 (fmul (fdiv (splitCount config) 5) 100)"

definition addressScore :: "PrivacyConfig \<Rightarrow> real" where
  "addressScore config =
     (if uniqueAddresses config \<ge> splitCount config then 100
      else fmul (fdiv (uniqueAddresses config) (splitCount config)) 100)"

definition agingScore :: "PrivacyConfig \<Rightarrow> real" where
  "agingScore config = min 100 (fmul (fdiv (minAgingHours config) 48) 100)"

definition poolScore :: "PrivacyConfig \<Rightarrow> real" where
  "poolScore config = min 100 (fmul (fdiv (poolSize config) 1000) 100)"

definition weightedScore :: "PrivacyConfig \<Rightarrow> real" where
  "weightedScore config =
     fadd (fadd (fadd (fmul (splitScore config) (dbl 0.3))
                      (fmul (addressScore config) (dbl 0.25)))
                (fmul (agingScore config) (dbl 0.25)))
          (fmul (poolScore config) (dbl 0.2))"

definition calculatePrivacyScore :: "PrivacyConfig \<Rightarrow> int option" where
  "calculatePrivacyScore config =
     (if (splitCount config = 0 \<and> uniqueAddresses config < 0)
         \<or> \<not> (finite_double (splitScore config) \<and> finite_double (addressScore config)
               \<and> finite_double (agingScore config) \<and> finite_double (poolScore config))
      then None
      else Some (js_round (weightedScore config)))"

section \<open>Strings of numbers\<close>

text \<open>
  \<open>Number.prototype.toString(radix)\<close> and \<open>String(n)\<close> on integers: the digits of the
  absolute value, most significant first, after a minus sign for a negative number.
\<close>

definition digit_char :: "nat \<Rightarrow> char" where
  "digit_char d = ''0123456789abcdefghijklmnopqrstuvwxyz'' ! d"

fun radix_string :: "nat \<Rightarrow> nat \<Rightarrow> string" where
  "radix_string b n =
     (if b < 2 \<or> n < b then [digit_char n]
      else radix_string b (n div b) @ [digit_char (n mod b)])"

declare radix_string.simps [simp del]

definition toString_radix :: "nat \<Rightarrow> int \<Rightarrow> string" where
  "toString_radix b i =
     (if i < 0 then ''-'' @ radix_string b (nat (- i)) else radix_string b (nat i))"

section \<open>ComplianceGateway (range-client.ts)\<close>

datatype error =
  ProviderError
  | ValidationError string
  | BadSeedSize

datatype RiskLevel =
  CriticalRisk | ExtremelyHighRisk | HighRisk | MediumRisk | LowRisk | VeryLowRisk

record MaliciousEvidence =
  address :: string
  distance :: int
  name_tag :: "string option"
  entity :: "string option"
  category :: "string option"

record RiskScoreResponse =
  riskScore :: int
  riskLevel :: RiskLevel
  numHops :: int
  maliciousAddressesFound :: "MaliciousEvidence list"
  reasoning :: string

record ComplianceCheckResult =
  isCompliant :: bool
  cc_riskScore :: int
  cc_riskLevel :: RiskLevel
  isSanctioned :: bool
  cc_reasoning :: string
  rawResponse :: RiskScoreResponse

definition DEFAULT_MAX_RISK_THRESHOLD :: int where
  "DEFAULT_MAX_RISK_THRESHOLD = 5"

definition SANCTION_CATEGORIES :: "string list" where
  "SANCTION_CATEGORIES = [''ofac'', ''sanctions'', ''blacklist'', ''hack_funds'']"

text \<open>
  A client is its risk provider, its risk threshold and the runtime it runs on.

  The provider (\<open>getAddressRiskScore\<close>: the HTTP call of \<open>RangeClient\<close>, the table
  lookup of \<open>MockRangeClient\<close>) is a service outside the program, and two queries for
  one address need not get the same answer: \<open>getAddressRiskScore client k a\<close> is the
  answer to a query for \<open>a\<close> made after \<open>k\<close> earlier queries, a failed call being an
  error value. Code that runs after a query runs on \<open>queried client\<close>.

  \<open>toLowerCase\<close> is the runtime's \<open>String.prototype.toLowerCase\<close> (it follows the
  Unicode case mappings, which are not part of the program).
\<close>

record RangeClient =
  getAddressRiskScore :: "nat \<Rightarrow> string \<Rightarrow> error + RiskScoreResponse"
  maxRiskThreshold :: int
  toLowerCase :: "string \<Rightarrow> string"

definition queried :: "RangeClient \<Rightarrow> RangeClient" where
  "queried client =
     client\<lparr>getAddressRiskScore := (\<lambda>k. getAddressRiskScore client (Suc k))\<rparr>"

text \<open>
  The callback of the outer \<open>some\<close> in \<open>checkSanctions\<close>:
  \<open>m.distance === 0 && SANCTION_CATEGORIES.some(cat => m.category?.toLowerCase().includes(cat))\<close>.
  A missing category makes the optional chain \<open>undefined\<close>, which is falsy;
  \<open>s.includes(cat)\<close> holds when \<open>cat\<close> is a contiguous part of \<open>s\<close>, which is
  \<open>sublist cat s\<close>.
\<close>

definition category_matches :: "RangeClient \<Rightarrow> MaliciousEvidence \<Rightarrow> string \<Rightarrow> bool" where
  "category_matches client m cat =
     (case category m of
        None \<Rightarrow> False
      | Some c \<Rightarrow> sublist cat (toLowerCase client c))"

definition sanction_evidence :: "RangeClient \<Rightarrow> MaliciousEvidence \<Rightarrow> bool" where
  "sanction_evidence client m =
     (distance m = 0 \<and> list_ex (category_matches client m) SANCTION_CATEGORIES)"

text \<open>
  The two constructors; \<open>lower\<close> is the runtime's lowercasing and \<open>http\<close> the remote
  provider. The mock client answers from its table.
\<close>

definition createRangeClient ::
  "(string \<Rightarrow> string) \<Rightarrow> (nat \<Rightarrow> string \<Rightarrow> error + RiskScoreResponse) \<Rightarrow> int option
     \<Rightarrow> RangeClient" where
  "createRangeClient lower http threshold =
     \<lparr>getAddressRiskScore = http,
      maxRiskThreshold =
        (case threshold of None \<Rightarrow> DEFAULT_MAX_RISK_THRESHOLD | Some t \<Rightarrow> t),
      toLowerCase = lower\<rparr>"

definition MockRangeClient ::
  "(string \<Rightarrow> string) \<Rightarrow> (string \<rightharpoonup> RiskScoreResponse) \<Rightarrow> RangeClient" where
  "MockRangeClient lower mockResponses =
     \<lparr>getAddressRiskScore =
        (\<lambda>k a. case mockResponses a of
               Some mock \<Rightarrow> Inr mock
             | None \<Rightarrow>
                 Inr \<lparr>riskScore = 1, riskLevel = VeryLowRisk, numHops = 5,
                      maliciousAddressesFound = [],
                      reasoning = ''No suspicious paths found within 5 hops.''\<rparr>),
      maxRiskThreshold = DEFAULT_MAX_RISK_THRESHOLD,
      toLowerCase = lower\<rparr>"

text \<open>
  \<open>checkSanctions\<close> makes a query of its own. \<open>checkCompliance\<close> queries the provider
  and then calls \<open>checkSanctions\<close>, which queries it again: the risk score of the verdict
  comes from the first answer, the sanction flag from the second.
\<close>

definition checkSanctions :: "RangeClient \<Rightarrow> string \<Rightarrow> error + bool" where
  "checkSanctions client a =
     (case getAddressRiskScore client 0 a of
        Inl e \<Rightarrow> Inl e
      | Inr riskData \<Rightarrow>
          Inr (list_ex (sanction_evidence client) (maliciousAddressesFound riskData)
               \<or> riskScore riskData = 10))"

definition checkCompliance :: "RangeClient \<Rightarrow> string \<Rightarrow> error + ComplianceCheckResult" where
  "checkCompliance client a =
     (case getAddressRiskScore client 0 a of
        Inl e \<Rightarrow> Inl e
      | Inr riskData \<Rightarrow>
          (case checkSanctions (queried client) a of
             Inl e \<Rightarrow> Inl e
           | Inr sanctioned \<Rightarrow>
               Inr \<lparr>isCompliant =
                      (riskScore riskData \<le> maxRiskThreshold client \<and> \<not> sanctioned),
                    cc_riskScore = riskScore riskData,
                    cc_riskLevel = riskLevel riskData,
                    isSanctioned = sanctioned,
                    cc_reasoning = reasoning riskData,
                    rawResponse = riskData\<rparr>))"

section \<open>NoirProofService (noir-proof-service.ts)\<close>

datatype CircuitType = age_verification | risk_threshold | selective_disclosure

text \<open>The field \<open>proof\<close> of the source is \<open>proofBytes\<close> here.\<close>

record GeneratedProof =
  proofBytes :: "8 word list"
  publicInputs :: "string list"
  isRealProof :: bool

record VerificationResult =
  isValid :: bool
  error_message :: "string option"

datatype witness_value = WNum int | WBool bool | WStr string

type_synonym ProofInput = "(string \<times> witness_value) list"

text \<open>
  What the service takes from outside the repository: the flag \<open>noirInitialized\<close>
  (set together with the \<open>UltraHonkBackend\<close> binding when the proving libraries load),
  the circuit artifacts that \<open>fetch\<close> can load, the proving backend (\<open>None\<close> when
  executing the circuit or generating the proof throws), its verifier (\<open>Inl\<close> the
  message when it throws), and the bytes the text encoder gives for the JSON text of a
  placeholder proof. The two caches of the class only memoise loads and are left out.
\<close>

record NoirProofService =
  useRealProofs :: bool
  noirInitialized :: bool
  loadCircuit :: "CircuitType \<Rightarrow> string option"
  backendGenerateProof ::
    "string \<Rightarrow> ProofInput \<Rightarrow> (8 word list \<times> string list option) option"
  backendVerifyProof :: "string \<Rightarrow> GeneratedProof \<Rightarrow> string + bool"
  mockProofPayload :: "CircuitType \<Rightarrow> ProofInput \<Rightarrow> 8 word list"

text \<open>\<open>String(v)\<close> for a value of a witness; a missing key reads as \<open>undefined\<close>.\<close>

definition String_of :: "witness_value option \<Rightarrow> string" where
  "String_of v =
     (case v of
        None \<Rightarrow> ''undefined''
      | Some (WNum n) \<Rightarrow> toString_radix 10 n
      | Some (WBool b) \<Rightarrow> (if b then ''true'' else ''false'')
      | Some (WStr s) \<Rightarrow> s)"

definition extractPublicInputs :: "CircuitType \<Rightarrow> ProofInput \<Rightarrow> string list" where
  "extractPublicInputs circuitType w =
     (case circuitType of
        age_verification \<Rightarrow> [String_of (map_of w ''minimum_age'')]
      | risk_threshold \<Rightarrow> [String_of (map_of w ''max_allowed_risk'')]
      | selective_disclosure \<Rightarrow>
          [String_of (map_of w ''minimum_age''),
           String_of (map_of w ''max_risk_score''),
           String_of (map_of w ''min_balance_usd'')])"

definition validateAgeInput :: "int \<Rightarrow> int \<Rightarrow> error + unit" where
  "validateAgeInput age minimumAge =
     (if age < 0 \<or> age > 255 then
        Inl (ValidationError ''Invalid age: must be between 0 and 255 (u8)'')
      else if minimumAge < 0 \<or> minimumAge > 255 then
        Inl (ValidationError ''Invalid minimum age: must be between 0 and 255 (u8)'')
      else if age < minimumAge then
        Inl (ValidationError ''Age verification will fail: age is below minimum'')
      else Inr ())"

definition validateRiskInput :: "int \<Rightarrow> int \<Rightarrow> error + unit" where
  "validateRiskInput risk maxAllowedRisk =
     (if risk < 1 \<or> risk > 10 then
        Inl (ValidationError ''Invalid risk score: must be between 1 and 10'')
      else if maxAllowedRisk < 1 \<or> maxAllowedRisk > 10 then
        Inl (ValidationError ''Invalid max risk: must be between 1 and 10'')
      else if risk > maxAllowedRisk then
        Inl (ValidationError ''Risk verification will fail: risk exceeds threshold'')
      else Inr ())"

definition validateSelectiveDisclosureInput ::
  "int \<Rightarrow> int \<Rightarrow> bool \<Rightarrow> int \<Rightarrow> int \<Rightarrow> int \<Rightarrow> int \<Rightarrow> error + unit" where
  "validateSelectiveDisclosureInput age risk sanctioned walletBalanceUsd minimumAge
       maxRisk minBalanceUsd =
     (case validateAgeInput age minimumAge of
        Inl e \<Rightarrow> Inl e
      | Inr _ \<Rightarrow>
          (case validateRiskInput risk maxRisk of
             Inl e \<Rightarrow> Inl e
           | Inr _ \<Rightarrow>
               if sanctioned then
                 Inl (ValidationError ''Selective disclosure will fail: address is sanctioned'')
               else if walletBalanceUsd < minBalanceUsd then
                 Inl (ValidationError ''Selective disclosure will fail: balance below minimum'')
               else Inr ()))"

definition createMockProof :: "NoirProofService \<Rightarrow> CircuitType \<Rightarrow> ProofInput \<Rightarrow> GeneratedProof" where
  "createMockProof ns circuitType w =
     \<lparr>proofBytes = mockProofPayload ns circuitType w,
      publicInputs = extractPublicInputs circuitType w,
      isRealProof = False\<rparr>"

text \<open>\<open>generateRealProof\<close>: \<open>None\<close> when it throws.\<close>

definition generateRealProof ::
  "NoirProofService \<Rightarrow> CircuitType \<Rightarrow> ProofInput \<Rightarrow> GeneratedProof option" where
  "generateRealProof ns circuitType w =
     (case loadCircuit ns circuitType of
        None \<Rightarrow> None
      | Some circuit \<Rightarrow>
          (case backendGenerateProof ns circuit w of
             None \<Rightarrow> None
           | Some (bytes, inputs) \<Rightarrow>
               Some \<lparr>proofBytes = bytes,
                     publicInputs =
                       (case inputs of
                          Some xs \<Rightarrow> xs
                        | None \<Rightarrow> extractPublicInputs circuitType w),
                     isRealProof = True\<rparr>))"

definition generateProof :: "NoirProofService \<Rightarrow> CircuitType \<Rightarrow> ProofInput \<Rightarrow> GeneratedProof" where
  "generateProof ns circuitType w =
     (if useRealProofs ns \<and> noirInitialized ns then
        (case generateRealProof ns circuitType w of
           Some p \<Rightarrow> p
         | None \<Rightarrow> createMockProof ns circuitType w)
      else createMockProof ns circuitType w)"

definition generateAgeProof :: "NoirProofService \<Rightarrow> int \<Rightarrow> int \<Rightarrow> error + GeneratedProof" where
  "generateAgeProof ns age minimumAge =
     (case validateAgeInput age minimumAge of
        Inl e \<Rightarrow> Inl e
      | Inr _ \<Rightarrow>
          Inr (generateProof ns age_verification
                 [(''age'', WNum age), (''minimum_age'', WNum minimumAge)]))"

definition generateRiskProof :: "NoirProofService \<Rightarrow> int \<Rightarrow> int \<Rightarrow> error + GeneratedProof" where
  "generateRiskProof ns risk maxAllowedRisk =
     (case validateRiskInput risk maxAllowedRisk of
        Inl e \<Rightarrow> Inl e
      | Inr _ \<Rightarrow>
          Inr (generateProof ns risk_threshold
                 [(''risk_score'', WNum risk), (''max_allowed_risk'', WNum maxAllowedRisk)]))"

definition generateSelectiveDisclosureProof ::
  "NoirProofService \<Rightarrow> int \<Rightarrow> int \<Rightarrow> bool \<Rightarrow> int \<Rightarrow> int \<Rightarrow> int \<Rightarrow> int
     \<Rightarrow> error + GeneratedProof" where
  "generateSelectiveDisclosureProof ns age risk sanctioned walletBalanceUsd minimumAge
       maxRisk minBalanceUsd =
     (case validateSelectiveDisclosureInput age risk sanctioned walletBalanceUsd
             minimumAge maxRisk minBalanceUsd of
        Inl e \<Rightarrow> Inl e
      | Inr _ \<Rightarrow>
          Inr (generateProof ns selective_disclosure
                 [(''age'', WNum age), (''risk_score'', WNum risk),
                  (''is_sanctioned'', WBool sanctioned),
                  (''wallet_balance_usd'', WNum walletBalanceUsd),
                  (''minimum_age'', WNum minimumAge),
                  (''max_risk_score'', WNum maxRisk),
                  (''min_balance_usd'', WNum minBalanceUsd)]))"

definition verifyProof :: "NoirProofService \<Rightarrow> CircuitType \<Rightarrow> GeneratedProof \<Rightarrow> VerificationResult" where
  "verifyProof ns circuitType p =
     (if \<not> isRealProof p then
        \<lparr>isValid = (length (proofBytes p) > 0), error_message = None\<rparr>
      else
        (case loadCircuit ns circuitType of
           None \<Rightarrow> \<lparr>isValid = (length (proofBytes p) > 0), error_message = None\<rparr>
         | Some circuit \<Rightarrow>
             if \<not> noirInitialized ns then
               \<lparr>isValid = (length (proofBytes p) > 0), error_message = None\<rparr>
             else
               (case backendVerifyProof ns circuit p of
                  Inl msg \<Rightarrow> \<lparr>isValid = False, error_message = Some msg\<rparr>
                | Inr ok \<Rightarrow> \<lparr>isValid = ok, error_message = None\<rparr>)))"

section \<open>AttestationService (compliance-service.ts)\<close>

record AttestationRequest =
  walletAddress :: string
  req_age :: int
  req_minimumAge :: "int option"
  req_maxRiskScore :: "int option"
  req_minBalanceUsd :: "int option"
  req_walletBalanceUsd :: "int option"

record AttestationProofs =
  age :: "GeneratedProof option"
  risk :: "GeneratedProof option"
  selectiveDisclosure :: "GeneratedProof option"

record AttestationPublicInputs =
  minimumAge :: int
  maxRiskScore :: int
  minBalanceUsd :: int

record AttestationResult =
  att_isCompliant :: bool
  attestationId :: string
  timestamp :: int
  proofs :: AttestationProofs
  complianceCheck :: ComplianceCheckResult
  att_publicInputs :: AttestationPublicInputs

record ComplianceServiceConfig =
  cfg_maxRiskThreshold :: "int option"
  defaultMinimumAge :: "int option"
  defaultMinBalanceUsd :: "int option"

definition DEFAULT_MINIMUM_AGE :: int where "DEFAULT_MINIMUM_AGE = 18"
definition DEFAULT_MAX_RISK :: int where "DEFAULT_MAX_RISK = 5"
definition DEFAULT_MIN_BALANCE :: int where "DEFAULT_MIN_BALANCE = 0"

record ComplianceService =
  rangeClient :: RangeClient
  noirService :: NoirProofService
  config :: ComplianceServiceConfig

text \<open>
  The constructor: the mock client when \<open>useMockRange\<close> is set (its table starts
  empty), otherwise a client over the HTTP provider with the configured threshold;
  \<open>lower\<close> and \<open>http\<close> are the runtime's lowercasing and the remote provider.
\<close>

definition new_ComplianceService ::
  "(string \<Rightarrow> string) \<Rightarrow> (nat \<Rightarrow> string \<Rightarrow> error + RiskScoreResponse) \<Rightarrow> NoirProofService
     \<Rightarrow> bool \<Rightarrow> ComplianceServiceConfig \<Rightarrow> ComplianceService" where
  "new_ComplianceService lower http ns useMockRange cfg =
     \<lparr>rangeClient =
        (if useMockRange then MockRangeClient lower Map.empty
         else createRangeClient lower http (cfg_maxRiskThreshold cfg)),
      noirService = ns,
      config = cfg\<rparr>"

text \<open>The operator \<open>a ?? b\<close>.\<close>

definition nullish :: "'a option \<Rightarrow> 'a \<Rightarrow> 'a" where
  "nullish a b = (case a of Some v \<Rightarrow> v | None \<Rightarrow> b)"

definition att_minimumAge :: "ComplianceService \<Rightarrow> AttestationRequest \<Rightarrow> int" where
  "att_minimumAge svc request =
     nullish (req_minimumAge request)
       (nullish (defaultMinimumAge (config svc)) DEFAULT_MINIMUM_AGE)"

definition att_maxRiskScore :: "ComplianceService \<Rightarrow> AttestationRequest \<Rightarrow> int" where
  "att_maxRiskScore svc request =
     nullish (req_maxRiskScore request)
       (nullish (cfg_maxRiskThreshold (config svc)) DEFAULT_MAX_RISK)"

definition att_minBalanceUsd :: "ComplianceService \<Rightarrow> AttestationRequest \<Rightarrow> int" where
  "att_minBalanceUsd svc request =
     nullish (req_minBalanceUsd request)
       (nullish (defaultMinBalanceUsd (config svc)) DEFAULT_MIN_BALANCE)"

definition att_walletBalanceUsd :: "AttestationRequest \<Rightarrow> int" where
  "att_walletBalanceUsd request = nullish (req_walletBalanceUsd request) 0"

text \<open>
  \<open>generateAttestationId\<close>, from the clock and the eight characters that
  \<open>Math.random().toString(36).substring(2, 10)\<close> gives.
\<close>

definition generateAttestationId :: "int \<Rightarrow> string \<Rightarrow> string" where
  "generateAttestationId now random = ''att_'' @ toString_radix 36 now @ ''_'' @ random"

text \<open>
  The \<open>try\<close> block of \<open>generateAttestation\<close>: the three proofs are requested in
  order and each is assigned as soon as it is generated; the first validation error
  leaves the later ones unassigned and sets the flag to false.
\<close>

definition attestation_proofs ::
  "ComplianceService \<Rightarrow> AttestationRequest \<Rightarrow> ComplianceCheckResult
     \<Rightarrow> bool \<times> AttestationProofs" where
  "attestation_proofs svc request check =
     (case generateAgeProof (noirService svc) (req_age request)
             (att_minimumAge svc request) of
        Inl _ \<Rightarrow> (False, \<lparr>age = None, risk = None, selectiveDisclosure = None\<rparr>)
      | Inr ageProof \<Rightarrow>
          (case generateRiskProof (noirService svc) (cc_riskScore check)
                  (att_maxRiskScore svc request) of
             Inl _ \<Rightarrow>
               (False, \<lparr>age = Some ageProof, risk = None, selectiveDisclosure = None\<rparr>)
           | Inr riskProof \<Rightarrow>
               (case generateSelectiveDisclosureProof (noirService svc) (req_age request)
                       (cc_riskScore check) (isSanctioned check)
                       (att_walletBalanceUsd request) (att_minimumAge svc request)
                       (att_maxRiskScore svc request) (att_minBalanceUsd svc request) of
                  Inl _ \<Rightarrow>
                    (False,
                     \<lparr>age = Some ageProof, risk = Some riskProof,
                      selectiveDisclosure = None\<rparr>)
                | Inr selectiveDisclosureProof \<Rightarrow>
                    (True,
                     \<lparr>age = Some ageProof, risk = Some riskProof,
                      selectiveDisclosure = Some selectiveDisclosureProof\<rparr>))))"

text \<open>
  \<open>generateAttestation\<close>. The compliance check stands before the \<open>try\<close> block, so a
  failure of the provider is the caller's (\<open>Inl\<close>). \<open>now\<close> is the clock's reading and
  \<open>random\<close> the random part of the identifier.
\<close>

definition generateAttestation ::
  "ComplianceService \<Rightarrow> int \<Rightarrow> string \<Rightarrow> AttestationRequest \<Rightarrow> error + AttestationResult" where
  "generateAttestation svc now random request =
     (case checkCompliance (rangeClient svc) (walletAddress request) of
        Inl e \<Rightarrow> Inl e
      | Inr check \<Rightarrow>
          (let (compliant, ps) = attestation_proofs svc request check in
           Inr \<lparr>att_isCompliant = compliant,
                attestationId = generateAttestationId now random,
                timestamp = now,
                proofs = ps,
                complianceCheck = check,
                att_publicInputs =
                  \<lparr>minimumAge = att_minimumAge svc request,
                   maxRiskScore = att_maxRiskScore svc request,
                   minBalanceUsd = att_minBalanceUsd svc request\<rparr>\<rparr>))"

definition verifyAttestation :: "ComplianceService \<Rightarrow> AttestationResult \<Rightarrow> bool" where
  "verifyAttestation svc attestation =
     (case selectiveDisclosure (proofs attestation) of
        None \<Rightarrow> False
      | Some p \<Rightarrow> isValid (verifyProof (noirService svc) selective_disclosure p))"

section \<open>Proof serialization (noir-proof-service.ts)\<close>

text \<open>
  A serialized proof is JSON text. The text is represented by the document it denotes:
  \<open>JSON.stringify\<close> writes a document of numbers, strings, booleans, arrays and
  objects, and \<open>JSON.parse\<close> reads the same document back.
\<close>

datatype json =
  JNull
  | JBool bool
  | JNumber int
  | JString string
  | JArray "json list"
  | JObject "(string \<times> json) list"

definition serializeProof :: "GeneratedProof \<Rightarrow> json" where
  "serializeProof p =
     JObject
       [(''proof'', JArray (map (\<lambda>b. JNumber (uint b)) (proofBytes p))),
        (''publicInputs'', JArray (map JString (publicInputs p))),
        (''isRealProof'', JBool (isRealProof p))]"

definition json_number :: "json \<Rightarrow> int option" where
  "json_number j = (case j of JNumber n \<Rightarrow> Some n | _ \<Rightarrow> None)"

definition json_string :: "json \<Rightarrow> string option" where
  "json_string j = (case j of JString s \<Rightarrow> Some s | _ \<Rightarrow> None)"

text \<open>
  \<open>deserializeProof\<close>, on the documents that have the shape of a serialized proof: an
  object whose \<open>proof\<close> is an array of numbers (\<open>new Uint8Array\<close> reduces each modulo
  256), whose \<open>publicInputs\<close> is an array of strings and whose \<open>isRealProof\<close> is a
  boolean, \<open>null\<close> or missing (\<open>?? false\<close>). Other documents are outside the model
  (\<open>None\<close>).
\<close>

definition deserializeProof :: "json \<Rightarrow> GeneratedProof option" where
  "deserializeProof parsed =
     (case parsed of
        JObject members \<Rightarrow>
          (case (map_of members ''proof'', map_of members ''publicInputs'') of
             (Some (JArray bs), Some (JArray ss)) \<Rightarrow>
               (case (those (map json_number bs), those (map json_string ss)) of
                  (Some numbers, Some strings) \<Rightarrow>
                    (case map_of members ''isRealProof'' of
                       None \<Rightarrow>
                         Some \<lparr>proofBytes = map word_of_int numbers,
                               publicInputs = strings, isRealProof = False\<rparr>
                     | Some JNull \<Rightarrow>
                         Some \<lparr>proofBytes = map word_of_int numbers,
                               publicInputs = strings, isRealProof = False\<rparr>
                     | Some (JBool b) \<Rightarrow>
                         Some \<lparr>proofBytes = map word_of_int numbers,
                               publicInputs = strings, isRealProof = b\<rparr>
                     | Some _ \<Rightarrow> None)
                | _ \<Rightarrow> None)
           | _ \<Rightarrow> None)
      | _ \<Rightarrow> None)"

section \<open>AddressDeriver (privacy-utils.ts)\<close>

definition ED25519_CURVE_ORDER :: int where
  "ED25519_CURVE_ORDER =
     0x7FFFFFFFFFFFFFFFFFFFFFFFFFFFFFFFFFFFFFFFFFFFFFFFFFFFFFFFFFFFFFED"

text \<open>
  The bytes of a number, most significant first: \<open>be_bytes n h\<close> is what the second
  loop of \<open>deriveKeypair\<close> writes into an array of \<open>n\<close> bytes (\<open>derived[i] = hash & 0xFF;
  hash = hash >> 8\<close>, from the last index down), and what \<open>setUint32(0, index, false)\<close>
  writes for \<open>n = 4\<close>, after reducing the index modulo \<open>2^32\<close>.
\<close>

fun be_bytes :: "nat \<Rightarrow> int \<Rightarrow> 8 word list" where
  "be_bytes 0 h = []"
| "be_bytes (Suc n) h = be_bytes n (h div 256) @ [word_of_int (h mod 256)]"

definition indexBytes :: "int \<Rightarrow> 8 word list" where
  "indexBytes index = be_bytes 4 (index mod 2 ^ 32)"

text \<open>The first loop: \<open>hash = (hash * 256n + BigInt(combined[i])) % ED25519_CURVE_ORDER\<close>.\<close>

definition hash_step :: "8 word \<Rightarrow> int \<Rightarrow> int" where
  "hash_step b hash = (hash * 256 + uint b) mod ED25519_CURVE_ORDER"

definition derived_seed :: "8 word list \<Rightarrow> int \<Rightarrow> 8 word list" where
  "derived_seed seed index =
     (let combined = seed @ indexBytes index;
          hash = fold hash_step combined 0
      in be_bytes 32 hash)"

text \<open>
  The step of the first loop without the reduction: folded over bytes it reads them as a
  number, most significant byte first.
\<close>

definition be_value_step :: "8 word \<Rightarrow> int \<Rightarrow> int" where
  "be_value_step b v = v * 256 + uint b"

text \<open>
  \<open>Keypair.fromSeed\<close> and \<open>toBase58\<close> belong to the Solana library, not to the
  repository. The library's public key of a seed and its Base58 encoding are parameters;
  \<open>fromSeed\<close> rejects a seed that is not 32 bytes long, and the secret key of the
  keypair it builds is the seed followed by the public key (64 bytes).
\<close>

record SolanaLib =
  ed25519_publicKey :: "8 word list \<Rightarrow> 8 word list"
  toBase58 :: "8 word list \<Rightarrow> string"

record Keypair =
  publicKey :: "8 word list"
  secretKey :: "8 word list"

definition Keypair_fromSeed :: "SolanaLib \<Rightarrow> 8 word list \<Rightarrow> error + Keypair" where
  "Keypair_fromSeed lib seed =
     (if length seed \<noteq> 32 then Inl BadSeedSize
      else Inr \<lparr>publicKey = ed25519_publicKey lib seed,
                secretKey = seed @ ed25519_publicKey lib seed\<rparr>)"

definition deriveKeypair :: "SolanaLib \<Rightarrow> 8 word list \<Rightarrow> int \<Rightarrow> error + Keypair" where
  "deriveKeypair lib seed index = Keypair_fromSeed lib (derived_seed seed index)"

definition deriveAddress :: "SolanaLib \<Rightarrow> 8 word list \<Rightarrow> int \<Rightarrow> error + string" where
  "deriveAddress lib seed index =
     (case deriveKeypair lib seed index of
        Inl e \<Rightarrow> Inl e
      | Inr keypair \<Rightarrow> Inr (toBase58 lib (publicKey keypair)))"

section \<open>WithdrawalScheduler (page.tsx)\<close>

datatype WithdrawalStatus = pending | ready | executed

text \<open>The field \<open>id\<close> of the source is \<open>wd_id\<close> here.\<close>

record ScheduledWithdrawal =
  wd_id :: string
  amount :: real
  targetAddress :: string
  scheduledTime :: real
  status :: WithdrawalStatus

definition minAgingMs :: real where
  "minAgingMs = 24 * 60 * 60 * 1000"

definition avgDelayMs :: real where
  "avgDelayMs = 4 * 60 * 60 * 1000"

text \<open>
  \<open>Math.random()\<close> is a sequence \<open>rnd\<close> of draws: the callback of \<open>splits.map\<close> takes
  draw \<open>2 * index\<close> for the delay and draw \<open>2 * index + 1\<close> for the jitter.
\<close>

definition poissonDelay :: "(nat \<Rightarrow> real) \<Rightarrow> nat \<Rightarrow> real" where
  "poissonDelay rnd index = real_of_int (js_round (- avgDelayMs * ln (1 - rnd (2 * index))))"

definition jitter :: "(nat \<Rightarrow> real) \<Rightarrow> nat \<Rightarrow> real" where
  "jitter rnd index = (rnd (2 * index + 1) - 0.5) * 60 * 60 * 1000"

text \<open>
  The callback of \<open>splits.map\<close>, from fragment \<open>index\<close> on, with the running
  \<open>currentTime\<close>; \<open>clock\<close> gives the reading of \<open>Date.now()\<close> that goes into the
  identifier of each fragment. An error of the address derivation ends the whole call.
\<close>

fun schedule_from ::
  "SolanaLib \<Rightarrow> (nat \<Rightarrow> int) \<Rightarrow> (nat \<Rightarrow> real) \<Rightarrow> 8 word list \<Rightarrow> nat \<Rightarrow> real \<Rightarrow> real list
     \<Rightarrow> error + ScheduledWithdrawal list" where
  "schedule_from lib clock rnd seed index currentTime [] = Inr []"
| "schedule_from lib clock rnd seed index currentTime (a # rest) =
     (let currentTime' = currentTime + poissonDelay rnd index;
          scheduled = currentTime' + jitter rnd index
      in case deriveAddress lib seed (int index) of
           Inl e \<Rightarrow> Inl e
         | Inr freshAddress \<Rightarrow>
             (case schedule_from lib clock rnd seed (Suc index) currentTime' rest of
                Inl e \<Rightarrow> Inl e
              | Inr ws \<Rightarrow>
                  Inr (\<lparr>wd_id = ''WD-'' @ toString_radix 36 (clock index) @ ''-''
                                 @ toString_radix 10 (int index),
                        amount = a,
                        targetAddress = freshAddress,
                        scheduledTime = scheduled,
                        status = pending\<rparr> # ws)))"

definition scheduleWithdrawals ::
  "SolanaLib \<Rightarrow> int \<Rightarrow> (nat \<Rightarrow> int) \<Rightarrow> (nat \<Rightarrow> real) \<Rightarrow> real list \<Rightarrow> string \<Rightarrow> 8 word list
     \<Rightarrow> error + ScheduledWithdrawal list" where
  "scheduleWithdrawals lib now clock rnd splits baseAddress seed =
     schedule_from lib clock rnd seed 0 (real_of_int now + minAgingMs) splits"

text \<open>
  The value of \<open>currentTime\<close> once the delay of fragment \<open>index\<close> is added: the
  cursor to which the jitter of that fragment is applied.
\<close>

definition cursor :: "int \<Rightarrow> (nat \<Rightarrow> real) \<Rightarrow> nat \<Rightarrow> real" where
  "cursor now rnd index =
     real_of_int now + minAgingMs + sum (poissonDelay rnd) {0..<Suc index}"

section \<open>AmountSplitter (privacy-utils.ts)\<close>














section \<open>Instances from the test-suite\<close>

text \<open>
  The services the tests build: no proving library is loaded (the tests run outside a
  browser, so \<open>initNoirLibs\<close> gives up), every proof is a placeholder, and the
  compliance service uses the mock client with thresholds 5, 18 and 1000. The
  placeholder payload stands for the encoded JSON text, which is at least \<open>{}\<close>.
\<close>

definition test_noirService :: NoirProofService where
  "test_noirService =
     \<lparr>useRealProofs = True, noirInitialized = False,
      loadCircuit = (\<lambda>_. None),
      backendGenerateProof = (\<lambda>_ _. None),
      backendVerifyProof = (\<lambda>_ _. Inl ''Verification failed''),
      mockProofPayload = (\<lambda>_ _. [123, 125])\<rparr>"

text \<open>
  Lowercasing on the letters \<open>A\<close> to \<open>Z\<close>, on which the runtime's lowercasing adds 32 to
  the character code; the strings of the instances below hold no other letters.
\<close>

definition ascii_toLowerCase :: "string \<Rightarrow> string" where
  "ascii_toLowerCase =
     map (\<lambda>c. let n = (of_char c :: nat) in if 65 \<le> n \<and> n \<le> 90 then char_of (n + 32) else c)"

definition test_service :: ComplianceService where
  "test_service =
     new_ComplianceService ascii_toLowerCase (\<lambda>_ _. Inl ProviderError) test_noirService True
       \<lparr>cfg_maxRiskThreshold = Some 5, defaultMinimumAge = Some 18,
        defaultMinBalanceUsd = Some 1000\<rparr>"

definition test_request :: "int \<Rightarrow> int option \<Rightarrow> AttestationRequest" where
  "test_request a balance =
     \<lparr>walletAddress = ''TestWallet123'', req_age = a, req_minimumAge = None,
      req_maxRiskScore = None, req_minBalanceUsd = None, req_walletBalanceUsd = balance\<rparr>"

definition safe_response :: RiskScoreResponse where
  "safe_response =
     \<lparr>riskScore = 1, riskLevel = VeryLowRisk, numHops = 5, maliciousAddressesFound = [],
      reasoning = ''No suspicious paths found within 5 hops.''\<rparr>"

definition safe_check :: ComplianceCheckResult where
  "safe_check =
     \<lparr>isCompliant = True, cc_riskScore = 1, cc_riskLevel = VeryLowRisk,
      isSanctioned = False, cc_reasoning = ''No suspicious paths found within 5 hops.'',
      rawResponse = safe_response\<rparr>"

text \<open>
  A response with a risk score of 3 whose one evidence entry is a sanction entry (its
  category in capitals), at a given distance from the address.
\<close>

definition listed_response :: "int \<Rightarrow> RiskScoreResponse" where
  "listed_response hops =
     \<lparr>riskScore = 3, riskLevel = LowRisk, numHops = hops,
      maliciousAddressesFound =
        [\<lparr>address = ''ListedAddress'', distance = hops,
          name_tag = None, entity = None, category = Some ''OFAC_Sanctions''\<rparr>],
      reasoning = ''Listed address found.''\<rparr>"

text \<open>
  A provider whose answer changes between two queries: critical risk with no evidence
  entry at the first query, the safe response afterwards; and a client over it with the
  threshold 10.
\<close>

definition changing_provider :: "nat \<Rightarrow> string \<Rightarrow> error + RiskScoreResponse" where
  "changing_provider k a =
     Inr (if k = 0
          then \<lparr>riskScore = 10, riskLevel = CriticalRisk, numHops = 0,
                maliciousAddressesFound = [],
                reasoning = ''Address is directly flagged for malicious activity.''\<rparr>
          else safe_response)"

definition changing_check :: "error + ComplianceCheckResult" where
  "changing_check =
     checkCompliance (createRangeClient ascii_toLowerCase changing_provider (Some 10))
       ''Wallet''"

text \<open>
  A stand-in for the Solana library in concrete instances: the public key of a seed is
  the seed itself and the encoding writes each byte as one character.
\<close>

definition test_lib :: SolanaLib where
  "test_lib =
     \<lparr>ed25519_publicKey = (\<lambda>seed. seed),
      toBase58 = map (\<lambda>b. char_of (unat b))\<rparr>"

text \<open>
  The request of the tests with age 25 and no stated balance, at clock reading 0 and
  with the identifier suffix \<open>k3x9a1b2\<close>.
\<close>

definition underfunded_attestation :: "error + AttestationResult" where
  "underfunded_attestation =
     generateAttestation test_service 0 ''k3x9a1b2'' (test_request 25 None)"

definition invalidAttestation :: AttestationResult where
  "invalidAttestation =
     \<lparr>att_isCompliant = True, attestationId = ''fake'', timestamp = 0,
      proofs = \<lparr>age = None, risk = None, selectiveDisclosure = None\<rparr>,
      complianceCheck = safe_check,
      att_publicInputs = \<lparr>minimumAge = 18, maxRiskScore = 5, minBalanceUsd = 0\<rparr>\<rparr>"

chapter \<open>Verified properties\<close>

section \<open>Rounding to double precision\<close>

text \<open>
  Facts about \<open>dbl\<close>: it is monotone, the identity on the doubles (in particular on the
  integers below \<open>2 ^ 53\<close>), within half a quantum of its argument, and it is evaluated at
  a given rational from the exponent of that rational.
\<close>

lemma round_even_cases:
  "round_even y = \<lfloor>y\<rfloor> \<or> round_even y = \<lfloor>y\<rfloor> + 1"
  by (simp add: round_even_def Let_def)

lemma round_even_error: "\<bar>real_of_int (round_even y) - y\<bar> \<le> 1 / 2"
  unfolding round_even_def Let_def by (auto; linarith)

lemma round_even_int [simp]: "round_even (real_of_int k) = k"
  by (simp add: round_even_def)

lemma round_even_mono: "x \<le> y \<Longrightarrow> round_even x \<le> round_even y"
proof -
  assume xy: "x \<le> y"
  have f: "\<lfloor>x\<rfloor> \<le> \<lfloor>y\<rfloor>" using xy by (rule floor_mono)
  show ?thesis
  proof (cases "\<lfloor>x\<rfloor> = \<lfloor>y\<rfloor>")
    case True
    then show ?thesis
      using xy unfolding round_even_def Let_def by (auto; linarith)
  next
    case False
    then have "\<lfloor>x\<rfloor> + 1 \<le> \<lfloor>y\<rfloor>" using f by simp
    moreover have "round_even x \<le> \<lfloor>x\<rfloor> + 1" "\<lfloor>y\<rfloor> \<le> round_even y"
      using round_even_cases [of x] round_even_cases [of y] by auto
    ultimately show ?thesis by linarith
  qed
qed

lemma round_even_neg: "round_even (- y) = - round_even y"
proof (cases "y \<in> \<int>")
  case True
  then obtain k where "y = real_of_int k" by (auto elim: Ints_cases)
  then show ?thesis
    by (simp flip: of_int_minus)
next
  case False
  then have "y \<noteq> real_of_int \<lfloor>y\<rfloor>"
    by (metis Ints_of_int)
  then have c: "\<lfloor>- y\<rfloor> = - \<lfloor>y\<rfloor> - 1"
    by (simp add: floor_minus ceiling_altdef)
  have fr: "y - real_of_int \<lfloor>y\<rfloor> < 1" "0 \<le> y - real_of_int \<lfloor>y\<rfloor>" by linarith+
  show ?thesis
    unfolding round_even_def Let_def c using fr by (auto; linarith?)
qed


lemma quantum_pos: "0 < quantum x"
  by (simp add: quantum_def)

lemma binade_ge: "- 1022 \<le> binade x"
  by (simp add: binade_def)

lemma binade_abs: "binade (- x) = binade x"
  by (simp add: binade_def)

lemma binade_upper:
  assumes "x \<noteq> 0"
  shows "\<bar>x\<bar> < 2 powr (real_of_int (binade x) + 1)"
proof -
  have "log 2 \<bar>x\<bar> < real_of_int \<lfloor>log 2 \<bar>x\<bar>\<rfloor> + 1"
    by linarith
  also have "\<dots> \<le> real_of_int (binade x) + 1"
    by (simp add: binade_def)
  finally have "log 2 \<bar>x\<bar> < real_of_int (binade x) + 1" .
  then show ?thesis
    using assms by (simp add: log_less_iff)
qed

lemma binade_lower:
  assumes "x \<noteq> 0" "2 powr (- 1022) \<le> \<bar>x\<bar>"
  shows "2 powr real_of_int (binade x) \<le> \<bar>x\<bar>"
proof -
  have "- 1022 \<le> log 2 \<bar>x\<bar>"
    using assms by (simp add: le_log_iff)
  then have "- 1022 \<le> \<lfloor>log 2 \<bar>x\<bar>\<rfloor>"
    by (simp add: le_floor_iff)
  then have "binade x = \<lfloor>log 2 \<bar>x\<bar>\<rfloor>"
    by (simp add: binade_def)
  moreover have "real_of_int \<lfloor>log 2 \<bar>x\<bar>\<rfloor> \<le> log 2 \<bar>x\<bar>"
    by simp
  ultimately have "real_of_int (binade x) \<le> log 2 \<bar>x\<bar>"
    by simp
  then show ?thesis
    using assms(1) by (simp add: le_log_iff)
qed

lemma binade_lower_max:
  assumes "x \<noteq> 0"
  shows "2 powr real_of_int (binade x) \<le> max \<bar>x\<bar> (2 powr (- 1022))"
proof (cases "2 powr (- 1022) \<le> \<bar>x\<bar>")
  case True
  then show ?thesis using binade_lower [OF assms] by simp
next
  case False
  then have "log 2 \<bar>x\<bar> < - 1022"
    using assms by (simp add: log_less_iff)
  then have "\<lfloor>log 2 \<bar>x\<bar>\<rfloor> < - 1022"
    by (simp add: floor_less_iff)
  then have "binade x = - 1022"
    by (simp add: binade_def)
  then show ?thesis by simp
qed

lemma binade_eq:
  assumes "2 powr real_of_int e \<le> \<bar>x\<bar>" "\<bar>x\<bar> < 2 powr (real_of_int e + 1)" "- 1022 \<le> e"
  shows "binade x = e"
proof -
  have "0 < \<bar>x\<bar>"
    using assms(1) powr_gt_zero [of 2 "real_of_int e"] by linarith
  then have "\<lfloor>log 2 \<bar>x\<bar>\<rfloor> = e"
    using assms(1,2) by (simp add: floor_log_eq_powr_iff)
  then show ?thesis
    using assms(3) by (simp add: binade_def)
qed

lemma binade_mono:
  assumes "0 < x" "x \<le> y"
  shows "binade x \<le> binade y"
proof -
  have "log 2 \<bar>x\<bar> \<le> log 2 \<bar>y\<bar>"
    using assms by simp
  then have "\<lfloor>log 2 \<bar>x\<bar>\<rfloor> \<le> \<lfloor>log 2 \<bar>y\<bar>\<rfloor>"
    by (rule floor_mono)
  then show ?thesis
    by (simp add: binade_def)
qed

lemma dbl_zero [simp]: "dbl 0 = 0"
  by (simp add: dbl_def)

lemma dbl_neg: "dbl (- x) = - dbl x"
  by (simp add: dbl_def quantum_def binade_abs round_even_neg)

lemma dbl_error: "\<bar>dbl x - x\<bar> \<le> quantum x / 2"
proof (cases "x = 0")
  case True
  then show ?thesis using quantum_pos [of x] by simp
next
  case False
  let ?q = "quantum x"
  have q: "0 < ?q" by (rule quantum_pos)
  have "dbl x - x = ?q * (real_of_int (round_even (x / ?q)) - x / ?q)"
    using False q by (simp add: dbl_def algebra_simps)
  then have "\<bar>dbl x - x\<bar> = ?q * \<bar>real_of_int (round_even (x / ?q)) - x / ?q\<bar>"
    using q by (simp add: abs_mult)
  also have "\<dots> \<le> ?q * (1 / 2)"
    using q round_even_error [of "x / ?q"] by (intro mult_left_mono) simp_all
  finally show ?thesis by simp
qed

lemma dbl_error_bound:
  assumes "\<bar>x\<bar> \<le> B" "2 powr (- 1022) \<le> B"
  shows "\<bar>dbl x - x\<bar> \<le> B * 2 powr (- 53)"
proof (cases "x = 0")
  case True
  then show ?thesis using assms by simp
next
  case False
  have "2 powr real_of_int (binade x) \<le> B"
    using binade_lower_max [OF False] assms by linarith
  then have "2 powr real_of_int (binade x) * 2 powr (- 53) \<le> B * 2 powr (- 53)"
    by (intro mult_right_mono) simp_all
  moreover have "quantum x / 2 = 2 powr real_of_int (binade x) * 2 powr (- 53)"
    by (simp add: quantum_def flip: powr_add) (simp add: powr_diff)
  ultimately show ?thesis
    using dbl_error [of x] by linarith
qed


lemma quantum_52: "quantum x * 2 powr 52 = 2 powr real_of_int (binade x)"
  unfolding quantum_def by (subst powr_add [symmetric]) simp

lemma quantum_53: "quantum x * 2 powr 53 = 2 powr (real_of_int (binade x) + 1)"
  unfolding quantum_def by (subst powr_add [symmetric]) (simp add: algebra_simps)

lemma two_powr_52: "2 powr 52 = real_of_int (2 ^ 52)"
  by simp

lemma two_powr_53: "2 powr 53 = real_of_int (2 ^ 53)"
  by simp

lemma scaled_below:
  assumes "x \<noteq> 0"
  shows "\<bar>x\<bar> / quantum x < real_of_int (2 ^ 53)"
proof -
  define P :: real where "P = 2 powr 53"
  have "\<bar>x\<bar> < 2 powr (real_of_int (binade x) + 1)"
    using assms by (rule binade_upper)
  then have "\<bar>x\<bar> < quantum x * P"
    by (simp only: quantum_53 P_def)
  then have "\<bar>x\<bar> / quantum x < P"
    using quantum_pos [of x] by (simp add: pos_divide_less_eq mult.commute)
  then show ?thesis
    by (simp only: P_def two_powr_53)
qed

lemma scaled_above:
  assumes "x \<noteq> 0" "2 powr (- 1022) \<le> \<bar>x\<bar>"
  shows "real_of_int (2 ^ 52) \<le> \<bar>x\<bar> / quantum x"
proof -
  define P :: real where "P = 2 powr 52"
  have "2 powr real_of_int (binade x) \<le> \<bar>x\<bar>"
    using assms by (rule binade_lower)
  then have "quantum x * P \<le> \<bar>x\<bar>"
    by (simp only: quantum_52 P_def)
  then have "P \<le> \<bar>x\<bar> / quantum x"
    using quantum_pos [of x] by (simp add: pos_le_divide_eq mult.commute)
  then show ?thesis
    by (simp only: P_def two_powr_52)
qed

lemma dbl_nonneg: "0 \<le> x \<Longrightarrow> 0 \<le> dbl x"
proof -
  assume "0 \<le> x"
  then have "real_of_int 0 \<le> x / quantum x"
    using quantum_pos [of x] by simp
  then have "round_even (real_of_int 0) \<le> round_even (x / quantum x)"
    by (rule round_even_mono)
  then have "0 \<le> round_even (x / quantum x)"
    by (simp only: round_even_int)
  then show "0 \<le> dbl x"
    using quantum_pos [of x] by (simp add: dbl_def)
qed

lemma dbl_upper:
  assumes "0 < x"
  shows "dbl x \<le> 2 powr (real_of_int (binade x) + 1)"
proof -
  define m where "m = round_even (x / quantum x)"
  have "x / quantum x \<le> real_of_int (2 ^ 53)"
    using scaled_below [of x] assms by simp
  then have "m \<le> round_even (real_of_int (2 ^ 53))"
    unfolding m_def by (rule round_even_mono)
  then have "real_of_int m \<le> real_of_int (2 ^ 53)"
    by (simp only: round_even_int of_int_le_iff)
  then have "real_of_int m \<le> 2 powr 53"
    by (simp only: two_powr_53)
  then have "quantum x * real_of_int m \<le> quantum x * 2 powr 53"
    using quantum_pos [of x] by (intro mult_left_mono) simp_all
  then have "quantum x * real_of_int m \<le> 2 powr (real_of_int (binade x) + 1)"
    by (simp only: quantum_53)
  then show ?thesis
    using assms by (simp add: dbl_def m_def)
qed

lemma dbl_lower:
  assumes "0 < x" "2 powr (- 1022) \<le> x"
  shows "2 powr real_of_int (binade x) \<le> dbl x"
proof -
  define m where "m = round_even (x / quantum x)"
  have "real_of_int (2 ^ 52) \<le> x / quantum x"
    using scaled_above [of x] assms by simp
  then have "round_even (real_of_int (2 ^ 52)) \<le> m"
    unfolding m_def by (rule round_even_mono)
  then have "real_of_int (2 ^ 52) \<le> real_of_int m"
    by (simp only: round_even_int of_int_le_iff)
  then have "2 powr 52 \<le> real_of_int m"
    by (simp only: two_powr_52)
  then have "quantum x * 2 powr 52 \<le> quantum x * real_of_int m"
    using quantum_pos [of x] by (intro mult_left_mono) simp_all
  then have "2 powr real_of_int (binade x) \<le> quantum x * real_of_int m"
    by (simp only: quantum_52)
  then show ?thesis
    using assms by (simp add: dbl_def m_def)
qed

lemma dbl_mono_pos:
  assumes "0 < x" "x \<le> y"
  shows "dbl x \<le> dbl y"
proof (cases "binade x = binade y")
  case True
  then have q: "quantum x = quantum y"
    by (simp add: quantum_def)
  have "x / quantum y \<le> y / quantum y"
    using assms quantum_pos [of y] by (simp add: divide_right_mono)
  then have "round_even (x / quantum y) \<le> round_even (y / quantum y)"
    by (rule round_even_mono)
  then have "quantum y * real_of_int (round_even (x / quantum y))
             \<le> quantum y * real_of_int (round_even (y / quantum y))"
    using quantum_pos [of y] by (intro mult_left_mono) simp_all
  then show ?thesis
    using assms by (simp add: dbl_def q)
next
  case False
  then have lt: "binade x + 1 \<le> binade y"
    using binade_mono [OF assms] by simp
  then have "- 1022 < binade y"
    using binade_ge [of x] by simp
  then have "- 1022 < \<lfloor>log 2 \<bar>y\<bar>\<rfloor>"
    unfolding binade_def by arith
  then have "- 1022 \<le> log 2 \<bar>y\<bar>"
    by linarith
  then have norm: "2 powr (- 1022) \<le> y"
    using assms by (simp add: le_log_iff)
  have "dbl x \<le> 2 powr (real_of_int (binade x) + 1)"
    using assms(1) by (rule dbl_upper)
  also have "\<dots> \<le> 2 powr real_of_int (binade y)"
    using lt by simp
  also have "\<dots> \<le> dbl y"
    using assms norm by (intro dbl_lower) simp_all
  finally show ?thesis .
qed

lemma dbl_mono:
  assumes "x \<le> y"
  shows "dbl x \<le> dbl y"
proof -
  consider "0 < x" | "x \<le> 0" "0 \<le> y" | "y < 0"
    using assms by linarith
  then show ?thesis
  proof cases
    case 1
    then show ?thesis using assms by (rule dbl_mono_pos)
  next
    case 2
    have "0 \<le> dbl (- x)" using 2(1) by (intro dbl_nonneg) simp
    then have "dbl x \<le> 0" by (simp add: dbl_neg)
    moreover have "0 \<le> dbl y" using 2(2) by (rule dbl_nonneg)
    ultimately show ?thesis by linarith
  next
    case 3
    then have "dbl (- y) \<le> dbl (- x)"
      using assms by (intro dbl_mono_pos) simp_all
    then show ?thesis by (simp add: dbl_neg)
  qed
qed

lemma dbl_scaled_int:
  assumes "x \<noteq> 0" "x = quantum x * real_of_int m"
  shows "dbl x = x"
proof -
  have "x / quantum x = real_of_int m"
    using assms(2) quantum_pos [of x]
    by (metis less_irrefl nonzero_mult_div_cancel_left)
  then have "round_even (x / quantum x) = m"
    by (simp only: round_even_int)
  then have "dbl x = quantum x * real_of_int m"
    using assms(1) by (simp add: dbl_def)
  then show ?thesis
    using assms(2) by simp
qed

lemma dbl_exact:
  assumes "x = real_of_int k * 2 powr real_of_int e" "\<bar>k\<bar> < 2 ^ 53" "- 1074 \<le> e"
  shows "dbl x = x"
proof (cases "x = 0")
  case True
  then show ?thesis by simp
next
  case False
  have "\<bar>x\<bar> = real_of_int \<bar>k\<bar> * 2 powr real_of_int e"
    by (simp add: assms(1) abs_mult)
  also have "\<dots> < real_of_int (2 ^ 53) * 2 powr real_of_int e"
  proof -
    have "real_of_int \<bar>k\<bar> < real_of_int (2 ^ 53)"
      using assms(2) by (simp only: of_int_less_iff)
    then show ?thesis by (intro mult_strict_right_mono) simp_all
  qed
  also have "\<dots> = 2 powr 53 * 2 powr real_of_int e"
    by (simp only: two_powr_53)
  also have "\<dots> = 2 powr (real_of_int e + 53)"
    by (subst powr_add [symmetric]) (simp add: add.commute)
  finally have "log 2 \<bar>x\<bar> < real_of_int e + 53"
    using False by (simp add: log_less_iff)
  then have "\<lfloor>log 2 \<bar>x\<bar>\<rfloor> < e + 53"
    by (simp add: floor_less_iff)
  then have b: "binade x \<le> e + 52"
    using assms(3) unfolding binade_def by arith
  define n where "n = nat (e + 52 - binade x)"
  define q where "q = quantum x"
  have n: "real_of_int e = (real_of_int (binade x) - 52) + real n"
    using b by (simp add: n_def)
  have "2 powr real_of_int e = 2 powr (real_of_int (binade x) - 52) * 2 powr real n"
    by (simp only: n powr_add)
  also have "\<dots> = q * 2 ^ n"
    by (simp add: q_def quantum_def powr_realpow)
  finally have "x = real_of_int k * (q * 2 ^ n)"
    using assms(1) by (simp only:)
  then have "x = q * real_of_int (k * 2 ^ n)"
    by (simp add: mult_ac)
  then show ?thesis
    unfolding q_def using False by (rule dbl_scaled_int [rotated])
qed

lemma dbl_int: "\<bar>k\<bar> < 2 ^ 53 \<Longrightarrow> dbl (real_of_int k) = real_of_int k"
  using dbl_exact [of "real_of_int k" k 0] by simp

lemma dbl_idem: "dbl (dbl x) = dbl x"
proof (cases "x = 0")
  case True
  then show ?thesis by simp
next
  case False
  define m where "m = round_even (x / quantum x)"
  define t where "t = x / quantum x"
  have "\<bar>x\<bar> / quantum x < real_of_int (2 ^ 53)"
    using False by (rule scaled_below)
  moreover have "\<bar>t\<bar> = \<bar>x\<bar> / quantum x"
    using quantum_pos [of x] by (simp add: t_def abs_divide)
  ultimately have "real_of_int (- (2 ^ 53)) \<le> t" "t \<le> real_of_int (2 ^ 53)"
    by simp_all
  then have "round_even (real_of_int (- (2 ^ 53))) \<le> m" "m \<le> round_even (real_of_int (2 ^ 53))"
    unfolding m_def t_def by (auto intro!: round_even_mono)
  then have m: "- (2 ^ 53) \<le> m" "m \<le> 2 ^ 53"
    by (simp_all only: round_even_int)
  have d: "dbl x = real_of_int m * 2 powr real_of_int (binade x - 52)"
    using False by (simp add: dbl_def quantum_def m_def)
  have e: "2 ^ 53 * 2 powr real_of_int (binade x - 52) = 2 powr real_of_int (binade x + 1)"
  proof -
    have "2 powr 53 * 2 powr real_of_int (binade x - 52) = 2 powr real_of_int (binade x + 1)"
      by (subst powr_add [symmetric]) (simp add: algebra_simps)
    then show ?thesis by simp
  qed
  consider "m = 2 ^ 53" | "m = - (2 ^ 53)" | "\<bar>m\<bar> < 2 ^ 53"
    using m by linarith
  then show ?thesis
  proof cases
    case 1
    then have "dbl x = real_of_int 1 * 2 powr real_of_int (binade x + 1)"
      using d e by simp
    then show ?thesis
      using binade_ge [of x] by (intro dbl_exact [where k = 1 and e = "binade x + 1"]) simp_all
  next
    case 2
    then have "dbl x = real_of_int (- 1) * 2 powr real_of_int (binade x + 1)"
      using d e by simp
    then show ?thesis
      using binade_ge [of x] by (intro dbl_exact [where k = "- 1" and e = "binade x + 1"]) simp_all
  next
    case 3
    then show ?thesis
      using d binade_ge [of x]
      by (intro dbl_exact [where k = m and e = "binade x - 52"]) simp_all
  qed
qed


lemma dbl_eval_up:
  assumes "2 ^ n \<le> \<bar>x\<bar>" "\<bar>x\<bar> < 2 * 2 ^ n"
  shows "dbl x = real_of_int (round_even (x * 2 ^ 52 / 2 ^ n)) * 2 ^ n / 2 ^ 52"
proof -
  have p: "2 powr real_of_int (int n) = 2 ^ n"
    by (simp add: powr_realpow)
  have "2 powr (real_of_int (int n) + 1) = 2 powr real_of_int (int n) * 2 powr 1"
    by (rule powr_add)
  then have p1: "2 powr (real_of_int (int n) + 1) = 2 * 2 ^ n"
    by (simp only: p) simp
  have "binade x = int n"
  proof (rule binade_eq)
    show "2 powr real_of_int (int n) \<le> \<bar>x\<bar>"
      unfolding p by (rule assms(1))
    show "\<bar>x\<bar> < 2 powr (real_of_int (int n) + 1)"
      unfolding p1 by (rule assms(2))
    show "- 1022 \<le> int n"
      by simp
  qed
  then have "quantum x = 2 powr real_of_int (int n) / 2 powr 52"
    by (simp only: quantum_def powr_diff)
  then have q: "quantum x = 2 ^ n / 2 ^ 52"
    by (simp only: p) simp
  have "0 < \<bar>x\<bar>"
    using assms(1) zero_less_power [of "2::real" n] by linarith
  then have "x \<noteq> 0" by auto
  then show ?thesis
    by (simp add: dbl_def q)
qed

lemma dbl_eval_down:
  assumes "1 \<le> \<bar>x\<bar> * 2 ^ n" "\<bar>x\<bar> * 2 ^ n < 2" "n \<le> 1022"
  shows "dbl x = real_of_int (round_even (x * 2 ^ (n + 52))) / 2 ^ (n + 52)"
proof -
  have "2 powr real_of_int (- int n) = inverse (2 powr real_of_int (int n))"
    by (simp add: powr_minus)
  then have p: "2 powr real_of_int (- int n) = 1 / 2 ^ n"
    by (simp add: powr_realpow divide_inverse)
  have "2 powr (real_of_int (- int n) + 1) = 2 powr real_of_int (- int n) * 2 powr 1"
    by (rule powr_add)
  then have p1: "2 powr (real_of_int (- int n) + 1) = 2 / 2 ^ n"
    by (simp only: p) simp
  have a: "1 / 2 ^ n \<le> \<bar>x\<bar>" "\<bar>x\<bar> < 2 / 2 ^ n"
    using assms(1,2) by (simp_all add: field_simps)
  have "binade x = - int n"
  proof (rule binade_eq)
    show "2 powr real_of_int (- int n) \<le> \<bar>x\<bar>"
      unfolding p by (rule a(1))
    show "\<bar>x\<bar> < 2 powr (real_of_int (- int n) + 1)"
      unfolding p1 by (rule a(2))
    show "- 1022 \<le> - int n"
      using assms(3) by simp
  qed
  then have "quantum x = 2 powr real_of_int (- int n) / 2 powr 52"
    by (simp only: quantum_def powr_diff)
  then have q: "quantum x = 1 / 2 ^ (n + 52)"
    by (simp only: p) (simp add: power_add)
  have "x \<noteq> 0"
    using assms(1) by auto
  then show ?thesis
    by (simp add: dbl_def q)
qed

lemma dbl_numeral [simp]: "\<bar>numeral n :: int\<bar> < 2 ^ 53 \<Longrightarrow> dbl (numeral n) = numeral n"
  using dbl_int [of "numeral n"] by simp

lemma dbl_neg_numeral [simp]:
  "\<bar>numeral n :: int\<bar> < 2 ^ 53 \<Longrightarrow> dbl (- numeral n) = - numeral n"
  using dbl_int [of "- numeral n"] by simp

lemma dbl_one [simp]: "dbl 1 = 1"
  using dbl_int [of 1] by simp

section \<open>Properties of the privacy score\<close>

lemma dbl_03: "dbl (3 / 10) = 5404319552844595 / 18014398509481984"
  using dbl_eval_down [of "3 / 10" 2] by (simp add: round_even_def)

lemma dbl_025: "dbl (1 / 4) = 1 / 4"
  using dbl_eval_down [of "1 / 4" 2] by (simp add: round_even_def)

lemma dbl_02: "dbl (1 / 5) = 3602879701896397 / 18014398509481984"
  using dbl_eval_down [of "1 / 5" 3] by (simp add: round_even_def)

lemma weights_100:
  "fmul 100 (dbl 0.3) = 30" "fmul 100 (dbl 0.25) = 25" "fmul 100 (dbl 0.2) = 20"
proof -
  have d0: "dbl (3 / 10) = 5404319552844595 / 18014398509481984"
    using dbl_eval_down [of "3 / 10" 2] by (simp add: round_even_def)
  have d1: "dbl (1 / 4) = 1 / 4"
    using dbl_eval_down [of "1 / 4" 2] by (simp add: round_even_def)
  have d2: "dbl (1 / 5) = 3602879701896397 / 18014398509481984"
    using dbl_eval_down [of "1 / 5" 3] by (simp add: round_even_def)
  have d3: "dbl (135107988821114875 / 4503599627370496) = 30"
    using dbl_eval_up [of 4 "135107988821114875 / 4503599627370496"] by (simp add: round_even_def)
  have d4: "dbl (90071992547409925 / 4503599627370496) = 20"
    using dbl_eval_up [of 4 "90071992547409925 / 4503599627370496"] by (simp add: round_even_def)
  show "fmul 100 (dbl 0.3) = 30" "fmul 100 (dbl 0.25) = 25" "fmul 100 (dbl 0.2) = 20"
    by (simp_all add: fmul_def d0 d1 d2 d3 d4)
qed

lemma fmul_mono: "0 \<le> c \<Longrightarrow> a \<le> b \<Longrightarrow> fmul a c \<le> fmul b c"
  unfolding fmul_def by (intro dbl_mono mult_right_mono)

lemma fdiv_mono: "0 \<le> c \<Longrightarrow> a \<le> b \<Longrightarrow> fdiv a c \<le> fdiv b c"
  unfolding fdiv_def by (intro dbl_mono divide_right_mono)

lemma fadd_mono: "a \<le> b \<Longrightarrow> c \<le> d \<Longrightarrow> fadd a c \<le> fadd b d"
  unfolding fadd_def by (intro dbl_mono add_mono)

lemma fmul_nonneg: "0 \<le> a \<Longrightarrow> 0 \<le> c \<Longrightarrow> 0 \<le> fmul a c"
  unfolding fmul_def by (intro dbl_nonneg mult_nonneg_nonneg)

lemma fdiv_nonneg: "0 \<le> a \<Longrightarrow> 0 \<le> c \<Longrightarrow> 0 \<le> fdiv a c"
  unfolding fdiv_def by (intro dbl_nonneg divide_nonneg_nonneg)

lemma fadd_nonneg: "0 \<le> a \<Longrightarrow> 0 \<le> c \<Longrightarrow> 0 \<le> fadd a c"
  unfolding fadd_def by (intro dbl_nonneg add_nonneg_nonneg)

lemma js_round_mono: "x \<le> y \<Longrightarrow> js_round x \<le> js_round y"
  by (simp add: js_round_def floor_mono)

lemma ratio_score_mono:
  "0 \<le> c \<Longrightarrow> a \<le> b \<Longrightarrow> min 100 (fmul (fdiv a c) 100) \<le> min 100 (fmul (fdiv b c) 100)"
proof -
  assume c: "0 \<le> c" and ab: "a \<le> b"
  have "fmul (fdiv a c) 100 \<le> fmul (fdiv b c) 100"
    using c ab by (intro fmul_mono fdiv_mono) simp_all
  then show ?thesis by simp
qed

lemma ratio_score_range:
  "0 \<le> c \<Longrightarrow> 0 \<le> a \<Longrightarrow>
   0 \<le> min 100 (fmul (fdiv a c) 100) \<and> min 100 (fmul (fdiv a c) 100) \<le> 100"
  using fmul_nonneg [of "fdiv a c" 100] fdiv_nonneg [of a c] by simp

lemma splitScore_range: "0 \<le> splitCount c \<Longrightarrow> 0 \<le> splitScore c \<and> splitScore c \<le> 100"
  unfolding splitScore_def by (intro ratio_score_range) simp_all

lemma agingScore_range: "0 \<le> minAgingHours c \<Longrightarrow> 0 \<le> agingScore c \<and> agingScore c \<le> 100"
  unfolding agingScore_def by (intro ratio_score_range) simp_all

lemma poolScore_range: "0 \<le> poolSize c \<Longrightarrow> 0 \<le> poolScore c \<and> poolScore c \<le> 100"
  unfolding poolScore_def by (intro ratio_score_range) simp_all

lemma address_ratio_le:
  assumes "a < s" "0 \<le> s"
  shows "fmul (fdiv a s) 100 \<le> 100"
proof -
  have "a / s \<le> 1"
  proof (cases "s = 0")
    case True
    then show ?thesis by simp
  next
    case False
    then show ?thesis using assms by simp
  qed
  then have "fdiv a s \<le> 1"
    unfolding fdiv_def using dbl_mono [of "a / s" 1] by simp
  then have "fmul (fdiv a s) 100 \<le> fmul 1 100"
    by (intro fmul_mono) simp_all
  then show ?thesis
    by (simp add: fmul_def)
qed

lemma addressScore_range:
  assumes "0 \<le> splitCount c" "0 \<le> uniqueAddresses c"
  shows "0 \<le> addressScore c \<and> addressScore c \<le> 100"
proof (cases "uniqueAddresses c \<ge> splitCount c")
  case True
  then show ?thesis by (simp add: addressScore_def)
next
  case False
  then have "fmul (fdiv (uniqueAddresses c) (splitCount c)) 100 \<le> 100"
    using assms by (intro address_ratio_le) simp_all
  moreover have "0 \<le> fmul (fdiv (uniqueAddresses c) (splitCount c)) 100"
    using assms by (intro fmul_nonneg fdiv_nonneg) simp_all
  ultimately show ?thesis
    using False by (simp add: addressScore_def)
qed

lemma addressScore_mono:
  assumes "0 \<le> splitCount c" "uniqueAddresses c \<le> u"
  shows "addressScore c \<le> addressScore (c\<lparr>uniqueAddresses := u\<rparr>)"
proof -
  consider "splitCount c \<le> uniqueAddresses c"
    | "uniqueAddresses c < splitCount c" "splitCount c \<le> u"
    | "uniqueAddresses c < splitCount c" "u < splitCount c"
    by linarith
  then show ?thesis
  proof cases
    case 1
    then show ?thesis using assms by (simp add: addressScore_def)
  next
    case 2
    then show ?thesis
      using assms address_ratio_le [of "uniqueAddresses c" "splitCount c"]
      by (simp add: addressScore_def)
  next
    case 3
    have "fmul (fdiv (uniqueAddresses c) (splitCount c)) 100 \<le> fmul (fdiv u (splitCount c)) 100"
      using assms by (intro fmul_mono fdiv_mono) simp_all
    then show ?thesis
      using 3 by (simp add: addressScore_def)
  qed
qed

lemma weighted_mono:
  assumes "splitScore c \<le> splitScore c'" "addressScore c \<le> addressScore c'"
    "agingScore c \<le> agingScore c'" "poolScore c \<le> poolScore c'"
  shows "js_round (weightedScore c) \<le> js_round (weightedScore c')"
proof -
  have pos: "0 \<le> dbl 0.3" "0 \<le> dbl 0.25" "0 \<le> dbl 0.2"
    by (simp_all add: dbl_nonneg)
  show ?thesis
    unfolding weightedScore_def using assms pos
    by (intro js_round_mono fadd_mono fmul_mono)
qed

lemma weighted_range:
  assumes "0 \<le> splitCount c" "0 \<le> uniqueAddresses c" "0 \<le> minAgingHours c" "0 \<le> poolSize c"
  shows "0 \<le> js_round (weightedScore c) \<and> js_round (weightedScore c) \<le> 100"
proof -
  have pos: "0 \<le> dbl 0.3" "0 \<le> dbl 0.25" "0 \<le> dbl 0.2"
    by (simp_all add: dbl_nonneg)
  note r = splitScore_range [OF assms(1)] addressScore_range [OF assms(1,2)]
    agingScore_range [OF assms(3)] poolScore_range [OF assms(4)]
  have "0 \<le> weightedScore c"
    unfolding weightedScore_def using r pos by (intro fadd_nonneg fmul_nonneg) simp_all
  moreover have "weightedScore c
      \<le> fadd (fadd (fadd (fmul 100 (dbl 0.3)) (fmul 100 (dbl 0.25))) (fmul 100 (dbl 0.25)))
           (fmul 100 (dbl 0.2))"
    unfolding weightedScore_def using r pos by (intro fadd_mono fmul_mono) simp_all
  moreover have "fadd (fadd (fadd (fmul 100 (dbl 0.3)) (fmul 100 (dbl 0.25))) (fmul 100 (dbl 0.25)))
           (fmul 100 (dbl 0.2)) = 100"
    unfolding weights_100 by (simp add: fadd_def)
  ultimately have "0 \<le> weightedScore c" "weightedScore c \<le> 100"
    by simp_all
  then show ?thesis
    unfolding js_round_def by (simp add: le_floor_iff floor_le_iff)
qed

lemma score_optimum:
  "calculatePrivacyScore
     \<lparr>splitCount = 5, uniqueAddresses = 5, minAgingHours = 48, poolSize = 1000\<rparr> = Some 100"
proof -
  define c where "c = \<lparr>splitCount = 5, uniqueAddresses = 5, minAgingHours = 48, poolSize = 1000\<rparr>"
  have d0: "dbl (3 / 10) = 5404319552844595 / 18014398509481984"
    using dbl_eval_down [of "3 / 10" 2] by (simp add: round_even_def)
  have d1: "dbl (1 / 4) = 1 / 4"
    using dbl_eval_down [of "1 / 4" 2] by (simp add: round_even_def)
  have d2: "dbl (1 / 5) = 3602879701896397 / 18014398509481984"
    using dbl_eval_down [of "1 / 5" 3] by (simp add: round_even_def)
  have d3: "dbl (135107988821114875 / 4503599627370496) = 30"
    using dbl_eval_up [of 4 "135107988821114875 / 4503599627370496"] by (simp add: round_even_def)
  have d4: "dbl (90071992547409925 / 4503599627370496) = 20"
    using dbl_eval_up [of 4 "90071992547409925 / 4503599627370496"] by (simp add: round_even_def)
  have S: "splitScore c = 100"
    by (simp add: c_def splitScore_def fdiv_def fmul_def dbl_neg d0 d1 d2 d3 d4)
  have A: "addressScore c = 100"
    by (simp add: c_def addressScore_def fdiv_def fmul_def dbl_neg d0 d1 d2 d3 d4)
  have G: "agingScore c = 100"
    by (simp add: c_def agingScore_def fdiv_def fmul_def dbl_neg d0 d1 d2 d3 d4)
  have P: "poolScore c = 100"
    by (simp add: c_def poolScore_def fdiv_def fmul_def dbl_neg d0 d1 d2 d3 d4)
  have W: "weightedScore c = 100"
    by (simp add: weightedScore_def S A G P fmul_def fadd_def dbl_neg d0 d1 d2 d3 d4)
  have "calculatePrivacyScore c = Some 100"
    by (simp add: calculatePrivacyScore_def finite_double_def js_round_def W S A G P)
      (simp add: c_def)
  then show ?thesis
    by (simp only: c_def)
qed

lemma score_zero:
  "calculatePrivacyScore
     \<lparr>splitCount = 0, uniqueAddresses = 0, minAgingHours = 0, poolSize = 0\<rparr> = Some 25"
proof -
  define c where "c = \<lparr>splitCount = 0, uniqueAddresses = 0, minAgingHours = 0, poolSize = 0\<rparr>"
  have d0: "dbl (3 / 10) = 5404319552844595 / 18014398509481984"
    using dbl_eval_down [of "3 / 10" 2] by (simp add: round_even_def)
  have d1: "dbl (1 / 4) = 1 / 4"
    using dbl_eval_down [of "1 / 4" 2] by (simp add: round_even_def)
  have d2: "dbl (1 / 5) = 3602879701896397 / 18014398509481984"
    using dbl_eval_down [of "1 / 5" 3] by (simp add: round_even_def)
  have S: "splitScore c = 0"
    by (simp add: c_def splitScore_def fdiv_def fmul_def dbl_neg d0 d1 d2)
  have A: "addressScore c = 100"
    by (simp add: c_def addressScore_def fdiv_def fmul_def dbl_neg d0 d1 d2)
  have G: "agingScore c = 0"
    by (simp add: c_def agingScore_def fdiv_def fmul_def dbl_neg d0 d1 d2)
  have P: "poolScore c = 0"
    by (simp add: c_def poolScore_def fdiv_def fmul_def dbl_neg d0 d1 d2)
  have W: "weightedScore c = 25"
    by (simp add: weightedScore_def S A G P fmul_def fadd_def dbl_neg d0 d1 d2)
  have "calculatePrivacyScore c = Some 25"
    by (simp add: calculatePrivacyScore_def finite_double_def js_round_def W S A G P)
      (simp add: c_def)
  then show ?thesis
    by (simp only: c_def)
qed

lemma score_neg_splitCount:
  "calculatePrivacyScore
     \<lparr>splitCount = - 5, uniqueAddresses = 0, minAgingHours = 0, poolSize = 0\<rparr> = Some (- 5)"
proof -
  define c where "c = \<lparr>splitCount = - 5, uniqueAddresses = 0, minAgingHours = 0, poolSize = 0\<rparr>"
  have d0: "dbl (3 / 10) = 5404319552844595 / 18014398509481984"
    using dbl_eval_down [of "3 / 10" 2] by (simp add: round_even_def)
  have d1: "dbl (1 / 4) = 1 / 4"
    using dbl_eval_down [of "1 / 4" 2] by (simp add: round_even_def)
  have d2: "dbl (1 / 5) = 3602879701896397 / 18014398509481984"
    using dbl_eval_down [of "1 / 5" 3] by (simp add: round_even_def)
  have d3: "dbl (135107988821114875 / 4503599627370496) = 30"
    using dbl_eval_up [of 4 "135107988821114875 / 4503599627370496"] by (simp add: round_even_def)
  have S: "splitScore c = - 100"
    by (simp add: c_def splitScore_def fdiv_def fmul_def dbl_neg d0 d1 d2 d3)
  have A: "addressScore c = 100"
    by (simp add: c_def addressScore_def fdiv_def fmul_def dbl_neg d0 d1 d2 d3)
  have G: "agingScore c = 0"
    by (simp add: c_def agingScore_def fdiv_def fmul_def dbl_neg d0 d1 d2 d3)
  have P: "poolScore c = 0"
    by (simp add: c_def poolScore_def fdiv_def fmul_def dbl_neg d0 d1 d2 d3)
  have W: "weightedScore c = - 5"
    by (simp add: weightedScore_def S A G P fmul_def fadd_def dbl_neg d0 d1 d2 d3)
  have "calculatePrivacyScore c = Some (- 5)"
    by (simp add: calculatePrivacyScore_def finite_double_def js_round_def W S A G P)
      (simp add: c_def)
  then show ?thesis
    by (simp only: c_def)
qed

lemma score_neg_uniqueAddresses:
  "calculatePrivacyScore
     \<lparr>splitCount = 1, uniqueAddresses = - 1, minAgingHours = 0, poolSize = 0\<rparr> = Some (- 19)"
proof -
  define c where "c = \<lparr>splitCount = 1, uniqueAddresses = - 1, minAgingHours = 0, poolSize = 0\<rparr>"
  have d0: "dbl (3 / 10) = 5404319552844595 / 18014398509481984"
    using dbl_eval_down [of "3 / 10" 2] by (simp add: round_even_def)
  have d1: "dbl (1 / 4) = 1 / 4"
    using dbl_eval_down [of "1 / 4" 2] by (simp add: round_even_def)
  have d2: "dbl (1 / 5) = 3602879701896397 / 18014398509481984"
    using dbl_eval_down [of "1 / 5" 3] by (simp add: round_even_def)
  have d3: "dbl (90071992547409925 / 4503599627370496) = 20"
    using dbl_eval_up [of 4 "90071992547409925 / 4503599627370496"] by (simp add: round_even_def)
  have d4: "dbl (27021597764222975 / 4503599627370496) = 6"
    using dbl_eval_up [of 2 "27021597764222975 / 4503599627370496"] by (simp add: round_even_def)
  have S: "splitScore c = 20"
    by (simp add: c_def splitScore_def fdiv_def fmul_def dbl_neg d0 d1 d2 d3 d4)
  have A: "addressScore c = - 100"
    by (simp add: c_def addressScore_def fdiv_def fmul_def dbl_neg d0 d1 d2 d3 d4)
  have G: "agingScore c = 0"
    by (simp add: c_def agingScore_def fdiv_def fmul_def dbl_neg d0 d1 d2 d3 d4)
  have P: "poolScore c = 0"
    by (simp add: c_def poolScore_def fdiv_def fmul_def dbl_neg d0 d1 d2 d3 d4)
  have W: "weightedScore c = - 19"
    by (simp add: weightedScore_def S A G P fmul_def fadd_def dbl_neg d0 d1 d2 d3 d4)
  have "calculatePrivacyScore c = Some (- 19)"
    by (simp add: calculatePrivacyScore_def finite_double_def js_round_def W S A G P)
      (simp add: c_def)
  then show ?thesis
    by (simp only: c_def)
qed

lemma score_neg_minAgingHours:
  "calculatePrivacyScore
     \<lparr>splitCount = 0, uniqueAddresses = 0, minAgingHours = - 96, poolSize = 0\<rparr> = Some (- 25)"
proof -
  define c where "c = \<lparr>splitCount = 0, uniqueAddresses = 0, minAgingHours = - 96, poolSize = 0\<rparr>"
  have d0: "dbl (3 / 10) = 5404319552844595 / 18014398509481984"
    using dbl_eval_down [of "3 / 10" 2] by (simp add: round_even_def)
  have d1: "dbl (1 / 4) = 1 / 4"
    using dbl_eval_down [of "1 / 4" 2] by (simp add: round_even_def)
  have d2: "dbl (1 / 5) = 3602879701896397 / 18014398509481984"
    using dbl_eval_down [of "1 / 5" 3] by (simp add: round_even_def)
  have S: "splitScore c = 0"
    by (simp add: c_def splitScore_def fdiv_def fmul_def dbl_neg d0 d1 d2)
  have A: "addressScore c = 100"
    by (simp add: c_def addressScore_def fdiv_def fmul_def dbl_neg d0 d1 d2)
  have G: "agingScore c = - 200"
    by (simp add: c_def agingScore_def fdiv_def fmul_def dbl_neg d0 d1 d2)
  have P: "poolScore c = 0"
    by (simp add: c_def poolScore_def fdiv_def fmul_def dbl_neg d0 d1 d2)
  have W: "weightedScore c = - 25"
    by (simp add: weightedScore_def S A G P fmul_def fadd_def dbl_neg d0 d1 d2)
  have "calculatePrivacyScore c = Some (- 25)"
    by (simp add: calculatePrivacyScore_def finite_double_def js_round_def W S A G P)
      (simp add: c_def)
  then show ?thesis
    by (simp only: c_def)
qed

lemma score_neg_poolSize:
  "calculatePrivacyScore
     \<lparr>splitCount = 0, uniqueAddresses = 0, minAgingHours = 0, poolSize = - 2000\<rparr> = Some (- 15)"
proof -
  define c where "c = \<lparr>splitCount = 0, uniqueAddresses = 0, minAgingHours = 0, poolSize = - 2000\<rparr>"
  have d0: "dbl (3 / 10) = 5404319552844595 / 18014398509481984"
    using dbl_eval_down [of "3 / 10" 2] by (simp add: round_even_def)
  have d1: "dbl (1 / 4) = 1 / 4"
    using dbl_eval_down [of "1 / 4" 2] by (simp add: round_even_def)
  have d2: "dbl (1 / 5) = 3602879701896397 / 18014398509481984"
    using dbl_eval_down [of "1 / 5" 3] by (simp add: round_even_def)
  have d3: "dbl (90071992547409925 / 2251799813685248) = 40"
    using dbl_eval_up [of 5 "90071992547409925 / 2251799813685248"] by (simp add: round_even_def)
  have S: "splitScore c = 0"
    by (simp add: c_def splitScore_def fdiv_def fmul_def dbl_neg d0 d1 d2 d3)
  have A: "addressScore c = 100"
    by (simp add: c_def addressScore_def fdiv_def fmul_def dbl_neg d0 d1 d2 d3)
  have G: "agingScore c = 0"
    by (simp add: c_def agingScore_def fdiv_def fmul_def dbl_neg d0 d1 d2 d3)
  have P: "poolScore c = - 200"
    by (simp add: c_def poolScore_def fdiv_def fmul_def dbl_neg d0 d1 d2 d3)
  have W: "weightedScore c = - 15"
    by (simp add: weightedScore_def S A G P fmul_def fadd_def dbl_neg d0 d1 d2 d3)
  have "calculatePrivacyScore c = Some (- 15)"
    by (simp add: calculatePrivacyScore_def finite_double_def js_round_def W S A G P)
      (simp add: c_def)
  then show ?thesis
    by (simp only: c_def)
qed

lemma score_10_5:
  "calculatePrivacyScore
     \<lparr>splitCount = 10, uniqueAddresses = 5, minAgingHours = 0, poolSize = 0\<rparr> = Some 43"
proof -
  define c where "c = \<lparr>splitCount = 10, uniqueAddresses = 5, minAgingHours = 0, poolSize = 0\<rparr>"
  have d0: "dbl (3 / 10) = 5404319552844595 / 18014398509481984"
    using dbl_eval_down [of "3 / 10" 2] by (simp add: round_even_def)
  have d1: "dbl (1 / 4) = 1 / 4"
    using dbl_eval_down [of "1 / 4" 2] by (simp add: round_even_def)
  have d2: "dbl (1 / 5) = 3602879701896397 / 18014398509481984"
    using dbl_eval_down [of "1 / 5" 3] by (simp add: round_even_def)
  have d3: "dbl (1 / 2) = 1 / 2"
    using dbl_eval_down [of "1 / 2" 1] by (simp add: round_even_def)
  have d4: "dbl (135107988821114875 / 4503599627370496) = 30"
    using dbl_eval_up [of 4 "135107988821114875 / 4503599627370496"] by (simp add: round_even_def)
  have d5: "dbl (25 / 2) = 25 / 2"
    using dbl_eval_up [of 3 "25 / 2"] by (simp add: round_even_def)
  have d6: "dbl (85 / 2) = 85 / 2"
    using dbl_eval_up [of 5 "85 / 2"] by (simp add: round_even_def)
  have S: "splitScore c = 100"
    by (simp add: c_def splitScore_def fdiv_def fmul_def dbl_neg d0 d1 d2 d3 d4 d5 d6)
  have A: "addressScore c = 50"
    by (simp add: c_def addressScore_def fdiv_def fmul_def dbl_neg d0 d1 d2 d3 d4 d5 d6)
  have G: "agingScore c = 0"
    by (simp add: c_def agingScore_def fdiv_def fmul_def dbl_neg d0 d1 d2 d3 d4 d5 d6)
  have P: "poolScore c = 0"
    by (simp add: c_def poolScore_def fdiv_def fmul_def dbl_neg d0 d1 d2 d3 d4 d5 d6)
  have W: "weightedScore c = 85 / 2"
    by (simp add: weightedScore_def S A G P fmul_def fadd_def dbl_neg d0 d1 d2 d3 d4 d5 d6)
  have "calculatePrivacyScore c = Some 43"
    by (simp add: calculatePrivacyScore_def finite_double_def js_round_def W S A G P)
      (simp add: c_def)
  then show ?thesis
    by (simp only: c_def)
qed

lemma score_5_5:
  "calculatePrivacyScore
     \<lparr>splitCount = 5, uniqueAddresses = 5, minAgingHours = 0, poolSize = 0\<rparr> = Some 55"
proof -
  define c where "c = \<lparr>splitCount = 5, uniqueAddresses = 5, minAgingHours = 0, poolSize = 0\<rparr>"
  have d0: "dbl (3 / 10) = 5404319552844595 / 18014398509481984"
    using dbl_eval_down [of "3 / 10" 2] by (simp add: round_even_def)
  have d1: "dbl (1 / 4) = 1 / 4"
    using dbl_eval_down [of "1 / 4" 2] by (simp add: round_even_def)
  have d2: "dbl (1 / 5) = 3602879701896397 / 18014398509481984"
    using dbl_eval_down [of "1 / 5" 3] by (simp add: round_even_def)
  have d3: "dbl (135107988821114875 / 4503599627370496) = 30"
    using dbl_eval_up [of 4 "135107988821114875 / 4503599627370496"] by (simp add: round_even_def)
  have S: "splitScore c = 100"
    by (simp add: c_def splitScore_def fdiv_def fmul_def dbl_neg d0 d1 d2 d3)
  have A: "addressScore c = 100"
    by (simp add: c_def addressScore_def fdiv_def fmul_def dbl_neg d0 d1 d2 d3)
  have G: "agingScore c = 0"
    by (simp add: c_def agingScore_def fdiv_def fmul_def dbl_neg d0 d1 d2 d3)
  have P: "poolScore c = 0"
    by (simp add: c_def poolScore_def fdiv_def fmul_def dbl_neg d0 d1 d2 d3)
  have W: "weightedScore c = 55"
    by (simp add: weightedScore_def S A G P fmul_def fadd_def dbl_neg d0 d1 d2 d3)
  have "calculatePrivacyScore c = Some 55"
    by (simp add: calculatePrivacyScore_def finite_double_def js_round_def W S A G P)
      (simp add: c_def)
  then show ?thesis
    by (simp only: c_def)
qed

lemma score_neg_1_3:
  "calculatePrivacyScore
     \<lparr>splitCount = - 1, uniqueAddresses = - 3, minAgingHours = 0, poolSize = 0\<rparr> = Some 69"
proof -
  define c where "c = \<lparr>splitCount = - 1, uniqueAddresses = - 3, minAgingHours = 0, poolSize = 0\<rparr>"
  have d0: "dbl (3 / 10) = 5404319552844595 / 18014398509481984"
    using dbl_eval_down [of "3 / 10" 2] by (simp add: round_even_def)
  have d1: "dbl (1 / 4) = 1 / 4"
    using dbl_eval_down [of "1 / 4" 2] by (simp add: round_even_def)
  have d2: "dbl (1 / 5) = 3602879701896397 / 18014398509481984"
    using dbl_eval_down [of "1 / 5" 3] by (simp add: round_even_def)
  have d3: "dbl (90071992547409925 / 4503599627370496) = 20"
    using dbl_eval_up [of 4 "90071992547409925 / 4503599627370496"] by (simp add: round_even_def)
  have d4: "dbl (27021597764222975 / 4503599627370496) = 6"
    using dbl_eval_up [of 2 "27021597764222975 / 4503599627370496"] by (simp add: round_even_def)
  have S: "splitScore c = - 20"
    by (simp add: c_def splitScore_def fdiv_def fmul_def dbl_neg d0 d1 d2 d3 d4)
  have A: "addressScore c = 300"
    by (simp add: c_def addressScore_def fdiv_def fmul_def dbl_neg d0 d1 d2 d3 d4)
  have G: "agingScore c = 0"
    by (simp add: c_def agingScore_def fdiv_def fmul_def dbl_neg d0 d1 d2 d3 d4)
  have P: "poolScore c = 0"
    by (simp add: c_def poolScore_def fdiv_def fmul_def dbl_neg d0 d1 d2 d3 d4)
  have W: "weightedScore c = 69"
    by (simp add: weightedScore_def S A G P fmul_def fadd_def dbl_neg d0 d1 d2 d3 d4)
  have "calculatePrivacyScore c = Some 69"
    by (simp add: calculatePrivacyScore_def finite_double_def js_round_def W S A G P)
      (simp add: c_def)
  then show ?thesis
    by (simp only: c_def)
qed

lemma score_neg_1_2:
  "calculatePrivacyScore
     \<lparr>splitCount = - 1, uniqueAddresses = - 2, minAgingHours = 0, poolSize = 0\<rparr> = Some 44"
proof -
  define c where "c = \<lparr>splitCount = - 1, uniqueAddresses = - 2, minAgingHours = 0, poolSize = 0\<rparr>"
  have d0: "dbl (3 / 10) = 5404319552844595 / 18014398509481984"
    using dbl_eval_down [of "3 / 10" 2] by (simp add: round_even_def)
  have d1: "dbl (1 / 4) = 1 / 4"
    using dbl_eval_down [of "1 / 4" 2] by (simp add: round_even_def)
  have d2: "dbl (1 / 5) = 3602879701896397 / 18014398509481984"
    using dbl_eval_down [of "1 / 5" 3] by (simp add: round_even_def)
  have d3: "dbl (90071992547409925 / 4503599627370496) = 20"
    using dbl_eval_up [of 4 "90071992547409925 / 4503599627370496"] by (simp add: round_even_def)
  have d4: "dbl (27021597764222975 / 4503599627370496) = 6"
    using dbl_eval_up [of 2 "27021597764222975 / 4503599627370496"] by (simp add: round_even_def)
  have S: "splitScore c = - 20"
    by (simp add: c_def splitScore_def fdiv_def fmul_def dbl_neg d0 d1 d2 d3 d4)
  have A: "addressScore c = 200"
    by (simp add: c_def addressScore_def fdiv_def fmul_def dbl_neg d0 d1 d2 d3 d4)
  have G: "agingScore c = 0"
    by (simp add: c_def agingScore_def fdiv_def fmul_def dbl_neg d0 d1 d2 d3 d4)
  have P: "poolScore c = 0"
    by (simp add: c_def poolScore_def fdiv_def fmul_def dbl_neg d0 d1 d2 d3 d4)
  have W: "weightedScore c = 44"
    by (simp add: weightedScore_def S A G P fmul_def fadd_def dbl_neg d0 d1 d2 d3 d4)
  have "calculatePrivacyScore c = Some 44"
    by (simp add: calculatePrivacyScore_def finite_double_def js_round_def W S A G P)
      (simp add: c_def)
  then show ?thesis
    by (simp only: c_def)
qed


lemma score_3_4_12_500:
  "calculatePrivacyScore
     \<lparr>splitCount = 3, uniqueAddresses = 4, minAgingHours = 12, poolSize = 500\<rparr> = Some 59"
proof -
  define c where "c = \<lparr>splitCount = 3, uniqueAddresses = 4, minAgingHours = 12, poolSize = 500\<rparr>"
  have d0: "dbl (3 / 10) = 5404319552844595 / 18014398509481984"
    using dbl_eval_down [of "3 / 10" 2] by (simp add: round_even_def)
  have d1: "dbl (1 / 4) = 1 / 4"
    using dbl_eval_down [of "1 / 4" 2] by (simp add: round_even_def)
  have d2: "dbl (1 / 5) = 3602879701896397 / 18014398509481984"
    using dbl_eval_down [of "1 / 5" 3] by (simp add: round_even_def)
  have d3: "dbl (3 / 5) = 5404319552844595 / 9007199254740992"
    using dbl_eval_down [of "3 / 5" 1] by (simp add: round_even_def)
  have d4: "dbl (135107988821114875 / 2251799813685248) = 60"
    using dbl_eval_up [of 5 "135107988821114875 / 2251799813685248"] by (simp add: round_even_def)
  have d5: "dbl (1 / 2) = 1 / 2"
    using dbl_eval_down [of "1 / 2" 1] by (simp add: round_even_def)
  have d6: "dbl (81064793292668925 / 4503599627370496) = 18"
    using dbl_eval_up [of 4 "81064793292668925 / 4503599627370496"] by (simp add: round_even_def)
  have d7: "dbl (25 / 4) = 25 / 4"
    using dbl_eval_up [of 2 "25 / 4"] by (simp add: round_even_def)
  have d8: "dbl (197 / 4) = 197 / 4"
    using dbl_eval_up [of 5 "197 / 4"] by (simp add: round_even_def)
  have d9: "dbl (90071992547409925 / 9007199254740992) = 10"
    using dbl_eval_up [of 3 "90071992547409925 / 9007199254740992"] by (simp add: round_even_def)
  have d10: "dbl (237 / 4) = 237 / 4"
    using dbl_eval_up [of 5 "237 / 4"] by (simp add: round_even_def)
  have S: "splitScore c = 60"
    by (simp add: c_def splitScore_def fdiv_def fmul_def dbl_neg d0 d1 d2 d3 d4 d5 d6 d7 d8 d9 d10)
  have A: "addressScore c = 100"
    by (simp add: c_def addressScore_def fdiv_def fmul_def dbl_neg d0 d1 d2 d3 d4 d5 d6 d7 d8 d9 d10)
  have G: "agingScore c = 25"
    by (simp add: c_def agingScore_def fdiv_def fmul_def dbl_neg d0 d1 d2 d3 d4 d5 d6 d7 d8 d9 d10)
  have P: "poolScore c = 50"
    by (simp add: c_def poolScore_def fdiv_def fmul_def dbl_neg d0 d1 d2 d3 d4 d5 d6 d7 d8 d9 d10)
  have W: "weightedScore c = 237 / 4"
    by (simp add: weightedScore_def S A G P fmul_def fadd_def dbl_neg d0 d1 d2 d3 d4 d5 d6 d7 d8 d9 d10)
  have "calculatePrivacyScore c = Some 59"
    by (simp add: calculatePrivacyScore_def finite_double_def js_round_def W S A G P)
      (simp add: c_def)
  then show ?thesis
    by (simp only: c_def)
qed

lemma score_3_5_12_500:
  "calculatePrivacyScore
     \<lparr>splitCount = 3, uniqueAddresses = 5, minAgingHours = 12, poolSize = 500\<rparr> = Some 59"
proof -
  define c where "c = \<lparr>splitCount = 3, uniqueAddresses = 5, minAgingHours = 12, poolSize = 500\<rparr>"
  have d0: "dbl (3 / 10) = 5404319552844595 / 18014398509481984"
    using dbl_eval_down [of "3 / 10" 2] by (simp add: round_even_def)
  have d1: "dbl (1 / 4) = 1 / 4"
    using dbl_eval_down [of "1 / 4" 2] by (simp add: round_even_def)
  have d2: "dbl (1 / 5) = 3602879701896397 / 18014398509481984"
    using dbl_eval_down [of "1 / 5" 3] by (simp add: round_even_def)
  have d3: "dbl (3 / 5) = 5404319552844595 / 9007199254740992"
    using dbl_eval_down [of "3 / 5" 1] by (simp add: round_even_def)
  have d4: "dbl (135107988821114875 / 2251799813685248) = 60"
    using dbl_eval_up [of 5 "135107988821114875 / 2251799813685248"] by (simp add: round_even_def)
  have d5: "dbl (1 / 2) = 1 / 2"
    using dbl_eval_down [of "1 / 2" 1] by (simp add: round_even_def)
  have d6: "dbl (81064793292668925 / 4503599627370496) = 18"
    using dbl_eval_up [of 4 "81064793292668925 / 4503599627370496"] by (simp add: round_even_def)
  have d7: "dbl (25 / 4) = 25 / 4"
    using dbl_eval_up [of 2 "25 / 4"] by (simp add: round_even_def)
  have d8: "dbl (197 / 4) = 197 / 4"
    using dbl_eval_up [of 5 "197 / 4"] by (simp add: round_even_def)
  have d9: "dbl (90071992547409925 / 9007199254740992) = 10"
    using dbl_eval_up [of 3 "90071992547409925 / 9007199254740992"] by (simp add: round_even_def)
  have d10: "dbl (237 / 4) = 237 / 4"
    using dbl_eval_up [of 5 "237 / 4"] by (simp add: round_even_def)
  have S: "splitScore c = 60"
    by (simp add: c_def splitScore_def fdiv_def fmul_def dbl_neg d0 d1 d2 d3 d4 d5 d6 d7 d8 d9 d10)
  have A: "addressScore c = 100"
    by (simp add: c_def addressScore_def fdiv_def fmul_def dbl_neg d0 d1 d2 d3 d4 d5 d6 d7 d8 d9 d10)
  have G: "agingScore c = 25"
    by (simp add: c_def agingScore_def fdiv_def fmul_def dbl_neg d0 d1 d2 d3 d4 d5 d6 d7 d8 d9 d10)
  have P: "poolScore c = 50"
    by (simp add: c_def poolScore_def fdiv_def fmul_def dbl_neg d0 d1 d2 d3 d4 d5 d6 d7 d8 d9 d10)
  have W: "weightedScore c = 237 / 4"
    by (simp add: weightedScore_def S A G P fmul_def fadd_def dbl_neg d0 d1 d2 d3 d4 d5 d6 d7 d8 d9 d10)
  have "calculatePrivacyScore c = Some 59"
    by (simp add: calculatePrivacyScore_def finite_double_def js_round_def W S A G P)
      (simp add: c_def)
  then show ?thesis
    by (simp only: c_def)
qed

lemma score_3_4_24_500:
  "calculatePrivacyScore
     \<lparr>splitCount = 3, uniqueAddresses = 4, minAgingHours = 24, poolSize = 500\<rparr> = Some 66"
proof -
  define c where "c = \<lparr>splitCount = 3, uniqueAddresses = 4, minAgingHours = 24, poolSize = 500\<rparr>"
  have d0: "dbl (3 / 10) = 5404319552844595 / 18014398509481984"
    using dbl_eval_down [of "3 / 10" 2] by (simp add: round_even_def)
  have d1: "dbl (1 / 4) = 1 / 4"
    using dbl_eval_down [of "1 / 4" 2] by (simp add: round_even_def)
  have d2: "dbl (1 / 5) = 3602879701896397 / 18014398509481984"
    using dbl_eval_down [of "1 / 5" 3] by (simp add: round_even_def)
  have d3: "dbl (3 / 5) = 5404319552844595 / 9007199254740992"
    using dbl_eval_down [of "3 / 5" 1] by (simp add: round_even_def)
  have d4: "dbl (135107988821114875 / 2251799813685248) = 60"
    using dbl_eval_up [of 5 "135107988821114875 / 2251799813685248"] by (simp add: round_even_def)
  have d5: "dbl (1 / 2) = 1 / 2"
    using dbl_eval_down [of "1 / 2" 1] by (simp add: round_even_def)
  have d6: "dbl (81064793292668925 / 4503599627370496) = 18"
    using dbl_eval_up [of 4 "81064793292668925 / 4503599627370496"] by (simp add: round_even_def)
  have d7: "dbl (25 / 2) = 25 / 2"
    using dbl_eval_up [of 3 "25 / 2"] by (simp add: round_even_def)
  have d8: "dbl (111 / 2) = 111 / 2"
    using dbl_eval_up [of 5 "111 / 2"] by (simp add: round_even_def)
  have d9: "dbl (90071992547409925 / 9007199254740992) = 10"
    using dbl_eval_up [of 3 "90071992547409925 / 9007199254740992"] by (simp add: round_even_def)
  have d10: "dbl (131 / 2) = 131 / 2"
    using dbl_eval_up [of 6 "131 / 2"] by (simp add: round_even_def)
  have S: "splitScore c = 60"
    by (simp add: c_def splitScore_def fdiv_def fmul_def dbl_neg d0 d1 d2 d3 d4 d5 d6 d7 d8 d9 d10)
  have A: "addressScore c = 100"
    by (simp add: c_def addressScore_def fdiv_def fmul_def dbl_neg d0 d1 d2 d3 d4 d5 d6 d7 d8 d9 d10)
  have G: "agingScore c = 50"
    by (simp add: c_def agingScore_def fdiv_def fmul_def dbl_neg d0 d1 d2 d3 d4 d5 d6 d7 d8 d9 d10)
  have P: "poolScore c = 50"
    by (simp add: c_def poolScore_def fdiv_def fmul_def dbl_neg d0 d1 d2 d3 d4 d5 d6 d7 d8 d9 d10)
  have W: "weightedScore c = 131 / 2"
    by (simp add: weightedScore_def S A G P fmul_def fadd_def dbl_neg d0 d1 d2 d3 d4 d5 d6 d7 d8 d9 d10)
  have "calculatePrivacyScore c = Some 66"
    by (simp add: calculatePrivacyScore_def finite_double_def js_round_def W S A G P)
      (simp add: c_def)
  then show ?thesis
    by (simp only: c_def)
qed

lemma score_3_4_12_800:
  "calculatePrivacyScore
     \<lparr>splitCount = 3, uniqueAddresses = 4, minAgingHours = 12, poolSize = 800\<rparr> = Some 65"
proof -
  define c where "c = \<lparr>splitCount = 3, uniqueAddresses = 4, minAgingHours = 12, poolSize = 800\<rparr>"
  have d0: "dbl (3 / 10) = 5404319552844595 / 18014398509481984"
    using dbl_eval_down [of "3 / 10" 2] by (simp add: round_even_def)
  have d1: "dbl (1 / 4) = 1 / 4"
    using dbl_eval_down [of "1 / 4" 2] by (simp add: round_even_def)
  have d2: "dbl (1 / 5) = 3602879701896397 / 18014398509481984"
    using dbl_eval_down [of "1 / 5" 3] by (simp add: round_even_def)
  have d3: "dbl (3 / 5) = 5404319552844595 / 9007199254740992"
    using dbl_eval_down [of "3 / 5" 1] by (simp add: round_even_def)
  have d4: "dbl (135107988821114875 / 2251799813685248) = 60"
    using dbl_eval_up [of 5 "135107988821114875 / 2251799813685248"] by (simp add: round_even_def)
  have d5: "dbl (4 / 5) = 3602879701896397 / 4503599627370496"
    using dbl_eval_down [of "4 / 5" 1] by (simp add: round_even_def)
  have d6: "dbl (90071992547409925 / 1125899906842624) = 80"
    using dbl_eval_up [of 6 "90071992547409925 / 1125899906842624"] by (simp add: round_even_def)
  have d7: "dbl (81064793292668925 / 4503599627370496) = 18"
    using dbl_eval_up [of 4 "81064793292668925 / 4503599627370496"] by (simp add: round_even_def)
  have d8: "dbl (25 / 4) = 25 / 4"
    using dbl_eval_up [of 2 "25 / 4"] by (simp add: round_even_def)
  have d9: "dbl (197 / 4) = 197 / 4"
    using dbl_eval_up [of 5 "197 / 4"] by (simp add: round_even_def)
  have d10: "dbl (18014398509481985 / 1125899906842624) = 16"
    using dbl_eval_up [of 4 "18014398509481985 / 1125899906842624"] by (simp add: round_even_def)
  have d11: "dbl (261 / 4) = 261 / 4"
    using dbl_eval_up [of 6 "261 / 4"] by (simp add: round_even_def)
  have S: "splitScore c = 60"
    by (simp add: c_def splitScore_def fdiv_def fmul_def dbl_neg d0 d1 d2 d3 d4 d5 d6 d7 d8 d9 d10 d11)
  have A: "addressScore c = 100"
    by (simp add: c_def addressScore_def fdiv_def fmul_def dbl_neg d0 d1 d2 d3 d4 d5 d6 d7 d8 d9 d10 d11)
  have G: "agingScore c = 25"
    by (simp add: c_def agingScore_def fdiv_def fmul_def dbl_neg d0 d1 d2 d3 d4 d5 d6 d7 d8 d9 d10 d11)
  have P: "poolScore c = 80"
    by (simp add: c_def poolScore_def fdiv_def fmul_def dbl_neg d0 d1 d2 d3 d4 d5 d6 d7 d8 d9 d10 d11)
  have W: "weightedScore c = 261 / 4"
    by (simp add: weightedScore_def S A G P fmul_def fadd_def dbl_neg d0 d1 d2 d3 d4 d5 d6 d7 d8 d9 d10 d11)
  have "calculatePrivacyScore c = Some 65"
    by (simp add: calculatePrivacyScore_def finite_double_def js_round_def W S A G P)
      (simp add: c_def)
  then show ?thesis
    by (simp only: c_def)
qed

lemma score_4_4_12_500:
  "calculatePrivacyScore
     \<lparr>splitCount = 4, uniqueAddresses = 4, minAgingHours = 12, poolSize = 500\<rparr> = Some 65"
proof -
  define c where "c = \<lparr>splitCount = 4, uniqueAddresses = 4, minAgingHours = 12, poolSize = 500\<rparr>"
  have d0: "dbl (3 / 10) = 5404319552844595 / 18014398509481984"
    using dbl_eval_down [of "3 / 10" 2] by (simp add: round_even_def)
  have d1: "dbl (1 / 4) = 1 / 4"
    using dbl_eval_down [of "1 / 4" 2] by (simp add: round_even_def)
  have d2: "dbl (1 / 5) = 3602879701896397 / 18014398509481984"
    using dbl_eval_down [of "1 / 5" 3] by (simp add: round_even_def)
  have d3: "dbl (4 / 5) = 3602879701896397 / 4503599627370496"
    using dbl_eval_down [of "4 / 5" 1] by (simp add: round_even_def)
  have d4: "dbl (90071992547409925 / 1125899906842624) = 80"
    using dbl_eval_up [of 6 "90071992547409925 / 1125899906842624"] by (simp add: round_even_def)
  have d5: "dbl (1 / 2) = 1 / 2"
    using dbl_eval_down [of "1 / 2" 1] by (simp add: round_even_def)
  have d6: "dbl (27021597764222975 / 1125899906842624) = 24"
    using dbl_eval_up [of 4 "27021597764222975 / 1125899906842624"] by (simp add: round_even_def)
  have d7: "dbl (25 / 4) = 25 / 4"
    using dbl_eval_up [of 2 "25 / 4"] by (simp add: round_even_def)
  have d8: "dbl (221 / 4) = 221 / 4"
    using dbl_eval_up [of 5 "221 / 4"] by (simp add: round_even_def)
  have d9: "dbl (90071992547409925 / 9007199254740992) = 10"
    using dbl_eval_up [of 3 "90071992547409925 / 9007199254740992"] by (simp add: round_even_def)
  have d10: "dbl (261 / 4) = 261 / 4"
    using dbl_eval_up [of 6 "261 / 4"] by (simp add: round_even_def)
  have S: "splitScore c = 80"
    by (simp add: c_def splitScore_def fdiv_def fmul_def dbl_neg d0 d1 d2 d3 d4 d5 d6 d7 d8 d9 d10)
  have A: "addressScore c = 100"
    by (simp add: c_def addressScore_def fdiv_def fmul_def dbl_neg d0 d1 d2 d3 d4 d5 d6 d7 d8 d9 d10)
  have G: "agingScore c = 25"
    by (simp add: c_def agingScore_def fdiv_def fmul_def dbl_neg d0 d1 d2 d3 d4 d5 d6 d7 d8 d9 d10)
  have P: "poolScore c = 50"
    by (simp add: c_def poolScore_def fdiv_def fmul_def dbl_neg d0 d1 d2 d3 d4 d5 d6 d7 d8 d9 d10)
  have W: "weightedScore c = 261 / 4"
    by (simp add: weightedScore_def S A G P fmul_def fadd_def dbl_neg d0 d1 d2 d3 d4 d5 d6 d7 d8 d9 d10)
  have "calculatePrivacyScore c = Some 65"
    by (simp add: calculatePrivacyScore_def finite_double_def js_round_def W S A G P)
      (simp add: c_def)
  then show ?thesis
    by (simp only: c_def)
qed

lemma score_defined:
  assumes "0 \<le> splitCount c" "0 \<le> uniqueAddresses c" "0 \<le> minAgingHours c" "0 \<le> poolSize c"
  shows "calculatePrivacyScore c = Some (js_round (weightedScore c))"
proof -
  note r = splitScore_range [OF assms(1)] addressScore_range [OF assms(1,2)]
    agingScore_range [OF assms(3)] poolScore_range [OF assms(4)]
  have "\<bar>x\<bar> < 2 ^ 1024" if "0 \<le> x \<and> x \<le> 100" for x :: real
  proof -
    have "(100 :: real) < 2 ^ 1024" by simp
    then show ?thesis using that by linarith
  qed
  then have "finite_double (splitScore c)" "finite_double (addressScore c)"
    "finite_double (agingScore c)" "finite_double (poolScore c)"
    unfolding finite_double_def using r by blast+
  then show ?thesis
    using assms by (simp add: calculatePrivacyScore_def)
qed

lemma score_Some:
  "calculatePrivacyScore c = Some k \<Longrightarrow> k = js_round (weightedScore c)"
  by (simp add: calculatePrivacyScore_def split: if_splits)

lemma splitScore_mono:
  "splitCount c \<le> n \<Longrightarrow> splitScore c \<le> splitScore (c\<lparr>splitCount := n\<rparr>)"
  unfolding splitScore_def by (simp del: min_le_iff_disj min.bounded_iff add: ratio_score_mono)

lemma agingScore_mono:
  "minAgingHours c \<le> h \<Longrightarrow> agingScore c \<le> agingScore (c\<lparr>minAgingHours := h\<rparr>)"
  unfolding agingScore_def by (simp del: min_le_iff_disj min.bounded_iff add: ratio_score_mono)

lemma poolScore_mono:
  "poolSize c \<le> p \<Longrightarrow> poolScore c \<le> poolScore (c\<lparr>poolSize := p\<rparr>)"
  unfolding poolScore_def by (simp del: min_le_iff_disj min.bounded_iff add: ratio_score_mono)

lemma score_mono_uniqueAddresses:
  assumes "calculatePrivacyScore c = Some k"
    "calculatePrivacyScore (c\<lparr>uniqueAddresses := u\<rparr>) = Some k'"
    "0 \<le> splitCount c" "uniqueAddresses c \<le> u"
  shows "k \<le> k'"
proof -
  have "js_round (weightedScore c) \<le> js_round (weightedScore (c\<lparr>uniqueAddresses := u\<rparr>))"
    using addressScore_mono [OF assms(3,4)]
    by (intro weighted_mono) (simp_all add: splitScore_def agingScore_def poolScore_def)
  then show ?thesis
    using score_Some [OF assms(1)] score_Some [OF assms(2)] by simp
qed

lemma score_mono_minAgingHours:
  assumes "calculatePrivacyScore c = Some k"
    "calculatePrivacyScore (c\<lparr>minAgingHours := h\<rparr>) = Some k'"
    "minAgingHours c \<le> h"
  shows "k \<le> k'"
proof -
  have "js_round (weightedScore c) \<le> js_round (weightedScore (c\<lparr>minAgingHours := h\<rparr>))"
    using agingScore_mono [OF assms(3)]
    by (intro weighted_mono) (simp_all add: splitScore_def addressScore_def poolScore_def)
  then show ?thesis
    using score_Some [OF assms(1)] score_Some [OF assms(2)] by simp
qed

lemma score_mono_poolSize:
  assumes "calculatePrivacyScore c = Some k"
    "calculatePrivacyScore (c\<lparr>poolSize := p\<rparr>) = Some k'"
    "poolSize c \<le> p"
  shows "k \<le> k'"
proof -
  have "js_round (weightedScore c) \<le> js_round (weightedScore (c\<lparr>poolSize := p\<rparr>))"
    using poolScore_mono [OF assms(3)]
    by (intro weighted_mono) (simp_all add: splitScore_def addressScore_def agingScore_def)
  then show ?thesis
    using score_Some [OF assms(1)] score_Some [OF assms(2)] by simp
qed

lemma score_mono_splitCount:
  assumes "calculatePrivacyScore c = Some k"
    "calculatePrivacyScore (c\<lparr>splitCount := n\<rparr>) = Some k'"
    "splitCount c \<le> n" "n \<le> uniqueAddresses c"
  shows "k \<le> k'"
proof -
  have "addressScore c = 100" "addressScore (c\<lparr>splitCount := n\<rparr>) = 100"
    using assms(3,4) by (simp_all add: addressScore_def)
  then have "js_round (weightedScore c) \<le> js_round (weightedScore (c\<lparr>splitCount := n\<rparr>))"
    using splitScore_mono [OF assms(3)]
    by (intro weighted_mono) (simp_all add: agingScore_def poolScore_def)
  then show ?thesis
    using score_Some [OF assms(1)] score_Some [OF assms(2)] by simp
qed

text \<open>
  C7 (as amended). \<open>calculatePrivacyScore\<close> is a function of its configuration alone
  (no state, no randomness). For every configuration of non-negative inputs its result
  is a number in \<open>[0, 100]\<close>; the configuration \<open>{5, 5, 48, 1000}\<close> scores 100; and
  between two configurations with a finite score, the score is non-decreasing in
  \<open>minAgingHours\<close> and in \<open>poolSize\<close>, in \<open>uniqueAddresses\<close> when \<open>splitCount\<close> is not
  negative, and in \<open>splitCount\<close> as long as the larger count does not exceed
  \<open>uniqueAddresses\<close>, the other three inputs held fixed.
\<close>

theorem calculatePrivacyScore_shape:
  "(0 \<le> splitCount c \<and> 0 \<le> uniqueAddresses c \<and> 0 \<le> minAgingHours c \<and> 0 \<le> poolSize c \<longrightarrow>
      (\<exists>k. calculatePrivacyScore c = Some k \<and> 0 \<le> k \<and> k \<le> 100))
   \<and> calculatePrivacyScore
        \<lparr>splitCount = 5, uniqueAddresses = 5, minAgingHours = 48, poolSize = 1000\<rparr> = Some 100
   \<and> (calculatePrivacyScore c = Some k
        \<and> calculatePrivacyScore (c\<lparr>uniqueAddresses := u\<rparr>) = Some k1
        \<and> 0 \<le> splitCount c \<and> uniqueAddresses c \<le> u \<longrightarrow> k \<le> k1)
   \<and> (calculatePrivacyScore c = Some k
        \<and> calculatePrivacyScore (c\<lparr>minAgingHours := h\<rparr>) = Some k2
        \<and> minAgingHours c \<le> h \<longrightarrow> k \<le> k2)
   \<and> (calculatePrivacyScore c = Some k
        \<and> calculatePrivacyScore (c\<lparr>poolSize := p\<rparr>) = Some k3
        \<and> poolSize c \<le> p \<longrightarrow> k \<le> k3)
   \<and> (calculatePrivacyScore c = Some k
        \<and> calculatePrivacyScore (c\<lparr>splitCount := n\<rparr>) = Some k4
        \<and> splitCount c \<le> n \<and> n \<le> uniqueAddresses c \<longrightarrow> k \<le> k4)"
  using score_defined [of c] weighted_range [of c] score_optimum
    score_mono_uniqueAddresses [of c k u k1] score_mono_minAgingHours [of c k h k2]
    score_mono_poolSize [of c k p k3] score_mono_splitCount [of c k n k4]
  by blast

text \<open>
  The theorem at the configuration \<open>{3, 4, 12, 500}\<close>, which scores 59, and at its four
  neighbours with one input raised.
\<close>

theorem calculatePrivacyScore_shape_witness:
  "calculatePrivacyScore
     \<lparr>splitCount = 3, uniqueAddresses = 4, minAgingHours = 12, poolSize = 500\<rparr> = Some 59
   \<and> calculatePrivacyScore
     \<lparr>splitCount = 3, uniqueAddresses = 5, minAgingHours = 12, poolSize = 500\<rparr> = Some 59
   \<and> calculatePrivacyScore
     \<lparr>splitCount = 3, uniqueAddresses = 4, minAgingHours = 24, poolSize = 500\<rparr> = Some 66
   \<and> calculatePrivacyScore
     \<lparr>splitCount = 3, uniqueAddresses = 4, minAgingHours = 12, poolSize = 800\<rparr> = Some 65
   \<and> calculatePrivacyScore
     \<lparr>splitCount = 4, uniqueAddresses = 4, minAgingHours = 12, poolSize = 500\<rparr> = Some 65
   \<and> (0 :: int) \<le> 59 \<and> (59 :: int) \<le> 100 \<and> (59 :: int) \<le> 66 \<and> (59 :: int) \<le> 65"
  using calculatePrivacyScore_shape
    [of "\<lparr>splitCount = 3, uniqueAddresses = 4, minAgingHours = 12, poolSize = 500\<rparr>"
        59 5 59 24 66 800 65 4 65]
    score_3_4_12_500 score_3_5_12_500 score_3_4_24_500 score_3_4_12_800 score_4_4_12_500
  by simp

text \<open>
  C7, as the specification states it, asks for a result in \<open>[0, 100]\<close> for every
  configuration and for monotonicity in each of the four inputs. Both fail. A negative
  input takes the score below 0: each of \<open>{-5, 0, 0, 0}\<close>, \<open>{1, -1, 0, 0}\<close>,
  \<open>{0, 0, -96, 0}\<close> and \<open>{0, 0, 0, -2000}\<close> has a negative score. The score falls as
  \<open>splitCount\<close> grows past \<open>uniqueAddresses\<close>: with five unique addresses, five
  fragments score 55 and ten fragments score 43. And under a negative \<open>splitCount\<close>
  it falls as \<open>uniqueAddresses\<close> grows: at \<open>splitCount = -1\<close>, -3 addresses score 69
  and -2 addresses score 44.
\<close>

theorem calculatePrivacyScore_counterexample:
  "calculatePrivacyScore
     \<lparr>splitCount = - 5, uniqueAddresses = 0, minAgingHours = 0, poolSize = 0\<rparr> = Some (- 5)
   \<and> calculatePrivacyScore
     \<lparr>splitCount = 1, uniqueAddresses = - 1, minAgingHours = 0, poolSize = 0\<rparr> = Some (- 19)
   \<and> calculatePrivacyScore
     \<lparr>splitCount = 0, uniqueAddresses = 0, minAgingHours = - 96, poolSize = 0\<rparr> = Some (- 25)
   \<and> calculatePrivacyScore
     \<lparr>splitCount = 0, uniqueAddresses = 0, minAgingHours = 0, poolSize = - 2000\<rparr> = Some (- 15)
   \<and> calculatePrivacyScore
     \<lparr>splitCount = 5, uniqueAddresses = 5, minAgingHours = 0, poolSize = 0\<rparr> = Some 55
   \<and> calculatePrivacyScore
     \<lparr>splitCount = 10, uniqueAddresses = 5, minAgingHours = 0, poolSize = 0\<rparr> = Some 43
   \<and> calculatePrivacyScore
     \<lparr>splitCount = - 1, uniqueAddresses = - 3, minAgingHours = 0, poolSize = 0\<rparr> = Some 69
   \<and> calculatePrivacyScore
     \<lparr>splitCount = - 1, uniqueAddresses = - 2, minAgingHours = 0, poolSize = 0\<rparr> = Some 44"
  using score_neg_splitCount score_neg_uniqueAddresses score_neg_minAgingHours
    score_neg_poolSize score_5_5 score_10_5 score_neg_1_3 score_neg_1_2
  by blast

text \<open>
  C10. With \<open>splitCount = 0\<close> the address component is 100 whatever the count
  \<open>uniqueAddresses\<close> is (the test \<open>uniqueAddresses \<ge> splitCount\<close> holds at 0), so
  the all-zero configuration scores 25, not 0.
\<close>

theorem calculatePrivacyScore_zero_splitCount:
  "(0 \<le> u \<longrightarrow>
      addressScore
        \<lparr>splitCount = 0, uniqueAddresses = u, minAgingHours = h, poolSize = p\<rparr> = 100)
   \<and> calculatePrivacyScore
     \<lparr>splitCount = 0, uniqueAddresses = 0, minAgingHours = 0, poolSize = 0\<rparr> = Some 25"
  using score_zero by (simp add: addressScore_def)

text \<open>The address component at \<open>splitCount = 0\<close> and seven unique addresses.\<close>

theorem calculatePrivacyScore_zero_splitCount_witness:
  "addressScore
     \<lparr>splitCount = 0, uniqueAddresses = 7, minAgingHours = 3, poolSize = 9\<rparr> = 100"
  using calculatePrivacyScore_zero_splitCount [of 7 3 9] by simp

section \<open>Compliance verdict\<close>

lemma list_ex_sanction:
  "list_ex (sanction_evidence client) ms \<longleftrightarrow>
     (\<exists>m \<in> set ms. distance m = 0
        \<and> (\<exists>c. category m = Some c
             \<and> (sublist ''ofac'' (toLowerCase client c)
                \<or> sublist ''sanctions'' (toLowerCase client c)
                \<or> sublist ''blacklist'' (toLowerCase client c)
                \<or> sublist ''hack_funds'' (toLowerCase client c))))"
  by (auto simp: list_ex_iff sanction_evidence_def category_matches_def
      SANCTION_CATEGORIES_def split: option.splits)

lemma queried_simps [simp]:
  "getAddressRiskScore (queried client) k = getAddressRiskScore client (Suc k)"
  "maxRiskThreshold (queried client) = maxRiskThreshold client"
  "toLowerCase (queried client) = toLowerCase client"
  by (simp_all add: queried_def)

lemma checkCompliance_result:
  assumes "getAddressRiskScore client 0 a = Inr r1"
    and "getAddressRiskScore client 1 a = Inr r2"
  shows "checkCompliance client a =
     Inr \<lparr>isCompliant =
            (riskScore r1 \<le> maxRiskThreshold client
             \<and> \<not> (list_ex (sanction_evidence client) (maliciousAddressesFound r2)
                  \<or> riskScore r2 = 10)),
          cc_riskScore = riskScore r1,
          cc_riskLevel = riskLevel r1,
          isSanctioned =
            (list_ex (sanction_evidence client) (maliciousAddressesFound r2)
             \<or> riskScore r2 = 10),
          cc_reasoning = reasoning r1,
          rawResponse = r1\<rparr>"
proof -
  have "category_matches (queried client) = category_matches client"
    by (intro ext) (simp add: category_matches_def split: option.splits)
  then have "sanction_evidence (queried client) = sanction_evidence client"
    by (intro ext) (simp add: sanction_evidence_def)
  then show ?thesis
    using assms by (simp add: checkCompliance_def checkSanctions_def)
qed

lemma ascii_toLowerCase_OFAC: "ascii_toLowerCase ''OFAC_Sanctions'' = ''ofac_sanctions''"
  by code_simp

lemma sublist_ofac: "sublist ''ofac'' ''ofac_sanctions''"
  by (simp add: sublist_Cons_right)

text \<open>
  C2 (as amended). \<open>checkCompliance\<close> queries the provider twice. For every pair of
  answers, \<open>r1\<close> to its own query and \<open>r2\<close> to the query made by \<open>checkSanctions\<close>, it
  returns a result with the risk score of \<open>r1\<close> and
  \<open>isCompliant = (riskScore r1 \<le> threshold \<and> \<not> isSanctioned)\<close>, where \<open>isSanctioned\<close>
  holds iff some evidence entry of \<open>r2\<close> has distance 0 and a category whose lowercased
  form contains one of the keywords \<open>ofac\<close>, \<open>sanctions\<close>, \<open>blacklist\<close>, \<open>hack_funds\<close>
  as a contiguous part, or the risk score of \<open>r2\<close> is 10. So a second answer with risk
  score 10 is non-compliant for every threshold; and when both queries get the same
  answer, a reported risk score of 10 is non-compliant for every threshold, and
  evidence at a distance other than 0 alone does not mark the address as sanctioned.
\<close>

theorem checkCompliance_verdict:
  assumes "getAddressRiskScore client 0 a = Inr r1"
    and "getAddressRiskScore client 1 a = Inr r2"
  shows "\<exists>res. checkCompliance client a = Inr res
     \<and> cc_riskScore res = riskScore r1
     \<and> isCompliant res = (riskScore r1 \<le> maxRiskThreshold client \<and> \<not> isSanctioned res)
     \<and> isSanctioned res =
         ((\<exists>m \<in> set (maliciousAddressesFound r2). distance m = 0
             \<and> (\<exists>c. category m = Some c
                  \<and> (sublist ''ofac'' (toLowerCase client c)
                     \<or> sublist ''sanctions'' (toLowerCase client c)
                     \<or> sublist ''blacklist'' (toLowerCase client c)
                     \<or> sublist ''hack_funds'' (toLowerCase client c))))
          \<or> riskScore r2 = 10)
     \<and> (riskScore r2 = 10 \<longrightarrow> \<not> isCompliant res)
     \<and> (r2 = r1 \<and> cc_riskScore res = 10 \<longrightarrow> \<not> isCompliant res)
     \<and> (r2 = r1 \<and> (\<forall>m \<in> set (maliciousAddressesFound r1). distance m \<noteq> 0) \<longrightarrow>
          isSanctioned res = (riskScore r1 = 10))"
proof -
  define s where
    "s \<longleftrightarrow> list_ex (sanction_evidence client) (maliciousAddressesFound r2) \<or> riskScore r2 = 10"
  define res where
    "res = \<lparr>isCompliant = (riskScore r1 \<le> maxRiskThreshold client \<and> \<not> s),
            cc_riskScore = riskScore r1, cc_riskLevel = riskLevel r1, isSanctioned = s,
            cc_reasoning = reasoning r1, rawResponse = r1\<rparr>"
  have c: "checkCompliance client a = Inr res"
    unfolding res_def s_def by (rule checkCompliance_result [OF assms])
  have f: "cc_riskScore res = riskScore r1" "isSanctioned res = s"
    "isCompliant res = (riskScore r1 \<le> maxRiskThreshold client \<and> \<not> s)"
    by (simp_all add: res_def)
  have e: "s \<longleftrightarrow>
       (\<exists>m \<in> set (maliciousAddressesFound r2). distance m = 0
          \<and> (\<exists>c. category m = Some c
               \<and> (sublist ''ofac'' (toLowerCase client c)
                  \<or> sublist ''sanctions'' (toLowerCase client c)
                  \<or> sublist ''blacklist'' (toLowerCase client c)
                  \<or> sublist ''hack_funds'' (toLowerCase client c))))
       \<or> riskScore r2 = 10"
    unfolding s_def list_ex_sanction by (rule refl)
  have "riskScore r2 = 10 \<longrightarrow> s"
    using e by blast
  moreover have "r2 = r1 \<and> (\<forall>m \<in> set (maliciousAddressesFound r1). distance m \<noteq> 0) \<longrightarrow>
      s = (riskScore r1 = 10)"
    using e by blast
  ultimately show ?thesis
    using c e by (intro exI [of _ res]) (simp only: f, blast)
qed

text \<open>
  The theorem at the mock client and a response with risk score 3, below the threshold
  5, whose one evidence entry has the category \<open>OFAC_Sanctions\<close>: at distance 0 the
  address is sanctioned and not compliant, at distance 2 it is neither sanctioned nor
  non-compliant.
\<close>

theorem checkCompliance_verdict_witness:
  "(\<exists>res. checkCompliance
            (MockRangeClient ascii_toLowerCase [''ListedAddress'' \<mapsto> listed_response 0])
            ''ListedAddress'' = Inr res
      \<and> cc_riskScore res = 3 \<and> isSanctioned res \<and> \<not> isCompliant res)
   \<and> (\<exists>res. checkCompliance
            (MockRangeClient ascii_toLowerCase [''ListedAddress'' \<mapsto> listed_response 2])
            ''ListedAddress'' = Inr res
      \<and> cc_riskScore res = 3 \<and> \<not> isSanctioned res \<and> isCompliant res)"
proof -
  have h: "getAddressRiskScore
             (MockRangeClient ascii_toLowerCase [''ListedAddress'' \<mapsto> listed_response d])
             k ''ListedAddress'' = Inr (listed_response d)" for d k
    by (simp add: MockRangeClient_def)
  have t: "maxRiskThreshold
             (MockRangeClient ascii_toLowerCase [''ListedAddress'' \<mapsto> listed_response d]) = 5"
      "toLowerCase
         (MockRangeClient ascii_toLowerCase [''ListedAddress'' \<mapsto> listed_response d])
         = ascii_toLowerCase" for d
    by (simp_all add: MockRangeClient_def DEFAULT_MAX_RISK_THRESHOLD_def)
  have r: "riskScore (listed_response d) = 3"
      "maliciousAddressesFound (listed_response d) =
         [\<lparr>address = ''ListedAddress'', distance = d,
           name_tag = None, entity = None, category = Some ''OFAC_Sanctions''\<rparr>]" for d
    by (simp_all add: listed_response_def)
  have "\<exists>res. checkCompliance
            (MockRangeClient ascii_toLowerCase [''ListedAddress'' \<mapsto> listed_response 0])
            ''ListedAddress'' = Inr res
      \<and> cc_riskScore res = 3 \<and> isSanctioned res \<and> \<not> isCompliant res"
    using checkCompliance_verdict [OF h [of 0 0] h [of 0 1]] sublist_ofac
    by (auto simp: t r ascii_toLowerCase_OFAC)
  moreover have "\<exists>res. checkCompliance
            (MockRangeClient ascii_toLowerCase [''ListedAddress'' \<mapsto> listed_response 2])
            ''ListedAddress'' = Inr res
      \<and> cc_riskScore res = 3 \<and> \<not> isSanctioned res \<and> isCompliant res"
    using checkCompliance_verdict [OF h [of 2 0] h [of 2 1]]
    by (auto simp: t r)
  ultimately show ?thesis
    by blast
qed

text \<open>
  C2, as the specification states it, has one response behind the verdict, so that a
  risk score of 10 is never compliant. The code takes the risk score from its first
  query and the sanction flag from a second one: when the provider answers critical
  risk (10) first and the safe response next, the client with threshold 10 reports the
  risk score 10, not sanctioned, compliant.
\<close>

theorem checkCompliance_two_queries_counterexample:
  "\<not> isl changing_check
   \<and> cc_riskScore (projr changing_check) = 10
   \<and> \<not> isSanctioned (projr changing_check)
   \<and> isCompliant (projr changing_check)"
  by (simp add: changing_check_def checkCompliance_def checkSanctions_def queried_def
      createRangeClient_def changing_provider_def safe_response_def)

section \<open>Attestations\<close>

lemma attestation_proofs_cases:
  "attestation_proofs svc request check = (c, ps) \<Longrightarrow>
   (c \<longleftrightarrow> age ps \<noteq> None \<and> risk ps \<noteq> None \<and> selectiveDisclosure ps \<noteq> None)
   \<and> (age ps \<noteq> None \<longleftrightarrow>
        validateAgeInput (req_age request) (att_minimumAge svc request) = Inr ())
   \<and> (risk ps \<noteq> None \<longleftrightarrow>
        validateAgeInput (req_age request) (att_minimumAge svc request) = Inr ()
        \<and> validateRiskInput (cc_riskScore check) (att_maxRiskScore svc request) = Inr ())
   \<and> (selectiveDisclosure ps \<noteq> None \<longleftrightarrow>
        validateAgeInput (req_age request) (att_minimumAge svc request) = Inr ()
        \<and> validateRiskInput (cc_riskScore check) (att_maxRiskScore svc request) = Inr ()
        \<and> validateSelectiveDisclosureInput (req_age request) (cc_riskScore check)
             (isSanctioned check) (att_walletBalanceUsd request)
             (att_minimumAge svc request) (att_maxRiskScore svc request)
             (att_minBalanceUsd svc request) = Inr ())"
  unfolding attestation_proofs_def generateAgeProof_def generateRiskProof_def
    generateSelectiveDisclosureProof_def
  by (auto split: sum.splits)

lemma test_service_check:
  "checkCompliance (rangeClient test_service) ''TestWallet123'' = Inr safe_check"
  by (simp add: test_service_def new_ComplianceService_def MockRangeClient_def
      checkCompliance_def checkSanctions_def queried_def safe_check_def safe_response_def
      DEFAULT_MAX_RISK_THRESHOLD_def)

text \<open>
  C3 (as amended). When the compliance check of the wallet returns, \<open>generateAttestation\<close>
  returns an attestation record whatever the validations of the three proof inputs say
  (no validation error reaches the caller). In the record each proof is present iff its
  own validation and the validations before it passed: the proofs generated before the
  first failing validation are kept, the failing proof and the later ones are omitted.
  \<open>isCompliant\<close> is true iff all three proofs are present, iff no validation failed.
\<close>

theorem generateAttestation_validation:
  assumes "checkCompliance (rangeClient svc) (walletAddress request) = Inr check"
  shows "\<exists>a. generateAttestation svc now random request = Inr a
     \<and> complianceCheck a = check
     \<and> (att_isCompliant a \<longleftrightarrow>
          age (proofs a) \<noteq> None \<and> risk (proofs a) \<noteq> None
          \<and> selectiveDisclosure (proofs a) \<noteq> None)
     \<and> (age (proofs a) \<noteq> None \<longleftrightarrow>
          validateAgeInput (req_age request) (att_minimumAge svc request) = Inr ())
     \<and> (risk (proofs a) \<noteq> None \<longleftrightarrow>
          validateAgeInput (req_age request) (att_minimumAge svc request) = Inr ()
          \<and> validateRiskInput (cc_riskScore check) (att_maxRiskScore svc request) = Inr ())
     \<and> (selectiveDisclosure (proofs a) \<noteq> None \<longleftrightarrow>
          validateAgeInput (req_age request) (att_minimumAge svc request) = Inr ()
          \<and> validateRiskInput (cc_riskScore check) (att_maxRiskScore svc request) = Inr ()
          \<and> validateSelectiveDisclosureInput (req_age request) (cc_riskScore check)
               (isSanctioned check) (att_walletBalanceUsd request)
               (att_minimumAge svc request) (att_maxRiskScore svc request)
               (att_minBalanceUsd svc request) = Inr ())"
proof -
  obtain c ps where cps: "attestation_proofs svc request check = (c, ps)"
    by (cases "attestation_proofs svc request check")
  let ?a = "\<lparr>att_isCompliant = c,
             attestationId = generateAttestationId now random,
             timestamp = now, proofs = ps, complianceCheck = check,
             att_publicInputs =
               \<lparr>minimumAge = att_minimumAge svc request,
                maxRiskScore = att_maxRiskScore svc request,
                minBalanceUsd = att_minBalanceUsd svc request\<rparr>\<rparr>"
  have "generateAttestation svc now random request = Inr ?a"
    using assms cps by (simp add: generateAttestation_def)
  moreover have "complianceCheck ?a = check" "att_isCompliant ?a = c" "proofs ?a = ps"
    by simp_all
  ultimately show ?thesis
    using attestation_proofs_cases [OF cps] by (intro exI [of _ ?a]) simp
qed

theorem generateAttestation_validation_witness:
  "checkCompliance (rangeClient test_service) (walletAddress (test_request 16 (Some 5000)))
     = Inr safe_check
   \<and> (\<exists>a. generateAttestation test_service 0 ''k3x9a1b2'' (test_request 16 (Some 5000)) = Inr a
         \<and> \<not> att_isCompliant a \<and> age (proofs a) = None \<and> risk (proofs a) = None
         \<and> selectiveDisclosure (proofs a) = None)"
proof -
  have h: "checkCompliance (rangeClient test_service)
             (walletAddress (test_request 16 (Some 5000))) = Inr safe_check"
    using test_service_check by (simp add: test_request_def)
  have v: "validateAgeInput (req_age (test_request 16 (Some 5000)))
             (att_minimumAge test_service (test_request 16 (Some 5000))) \<noteq> Inr ()"
    by (simp add: validateAgeInput_def test_request_def att_minimumAge_def nullish_def
        test_service_def new_ComplianceService_def)
  show ?thesis
    using h v generateAttestation_validation [OF h, of 0 "''k3x9a1b2''"] by auto
qed

text \<open>
  C3, as the specification states it, has the proofs that preceded the failure left out
  of the record. The code keeps them: for the wallet of the tests with age 25 and no
  stated balance (0, below the configured minimum of 1000) the selective-disclosure
  validation fails, and the record still carries the age proof and the risk proof
  generated before it.
\<close>

theorem generateAttestation_keeps_earlier_proofs_counterexample:
  "\<not> isl underfunded_attestation
   \<and> \<not> att_isCompliant (projr underfunded_attestation)
   \<and> age (proofs (projr underfunded_attestation)) =
       Some \<lparr>proofBytes = [123, 125], publicInputs = [''18''], isRealProof = False\<rparr>
   \<and> risk (proofs (projr underfunded_attestation)) =
       Some \<lparr>proofBytes = [123, 125], publicInputs = [''5''], isRealProof = False\<rparr>
   \<and> selectiveDisclosure (proofs (projr underfunded_attestation)) = None"
proof -
  have c: "checkCompliance (rangeClient test_service)
             (walletAddress (test_request 25 None)) = Inr safe_check"
    using test_service_check by (simp add: test_request_def)
  have n: "noirService test_service = test_noirService"
      "config test_service =
         \<lparr>cfg_maxRiskThreshold = Some 5, defaultMinimumAge = Some 18,
          defaultMinBalanceUsd = Some 1000\<rparr>"
    by (simp_all add: test_service_def new_ComplianceService_def)
  have g: "generateProof test_noirService ct w =
             \<lparr>proofBytes = [123, 125], publicInputs = extractPublicInputs ct w,
              isRealProof = False\<rparr>" for ct w
    by (simp add: generateProof_def createMockProof_def test_noirService_def)
  have s18: "toString_radix 10 18 = ''18''" and s5: "toString_radix 10 5 = ''5''"
    by (simp_all add: toString_radix_def radix_string.simps digit_char_def)
  have p: "attestation_proofs test_service (test_request 25 None) safe_check =
             (False,
              \<lparr>age = Some \<lparr>proofBytes = [123, 125], publicInputs = [''18''],
                           isRealProof = False\<rparr>,
               risk = Some \<lparr>proofBytes = [123, 125], publicInputs = [''5''],
                            isRealProof = False\<rparr>,
               selectiveDisclosure = None\<rparr>)"
    by (simp add: attestation_proofs_def n g generateAgeProof_def generateRiskProof_def
        generateSelectiveDisclosureProof_def validateSelectiveDisclosureInput_def
        validateAgeInput_def validateRiskInput_def att_minimumAge_def att_maxRiskScore_def
        att_minBalanceUsd_def att_walletBalanceUsd_def nullish_def test_request_def
        safe_check_def extractPublicInputs_def String_of_def s18 s5
        DEFAULT_MINIMUM_AGE_def DEFAULT_MAX_RISK_def DEFAULT_MIN_BALANCE_def)
  show ?thesis
    by (simp add: underfunded_attestation_def generateAttestation_def c p)
qed

text \<open>
  C4. A proof flagged \<open>isRealProof = false\<close> verifies iff its byte payload is
  non-empty, and an attestation without a selective-disclosure proof never verifies.
\<close>

theorem verification_policy:
  "(\<not> isRealProof p \<longrightarrow> isValid (verifyProof ns circuitType p) = (proofBytes p \<noteq> []))
   \<and> (selectiveDisclosure (proofs attestation) = None \<longrightarrow>
        verifyAttestation svc attestation = False)"
  by (simp add: verifyProof_def verifyAttestation_def)

theorem verification_policy_witness:
  "isValid (verifyProof test_noirService age_verification
      \<lparr>proofBytes = [123, 125], publicInputs = [''18''], isRealProof = False\<rparr>)
   \<and> \<not> isValid (verifyProof test_noirService age_verification
      \<lparr>proofBytes = [], publicInputs = [''18''], isRealProof = False\<rparr>)
   \<and> \<not> verifyAttestation test_service invalidAttestation"
  using verification_policy
      [of "\<lparr>proofBytes = [123, 125], publicInputs = [''18''], isRealProof = False\<rparr>"
          test_noirService age_verification invalidAttestation test_service]
    verification_policy
      [of "\<lparr>proofBytes = [], publicInputs = [''18''], isRealProof = False\<rparr>"
          test_noirService age_verification invalidAttestation test_service]
  by (simp add: invalidAttestation_def)

section \<open>Serialization round trip\<close>

lemma those_map_Some: "(\<And>x. f (g x) = Some x) \<Longrightarrow> those (map f (map g xs)) = Some xs"
  by (induction xs) simp_all

text \<open>
  C8. Deserializing a serialized proof gives the proof back: the same ordered list of
  public inputs, the same byte sequence (so the same length) and the same
  \<open>isRealProof\<close> flag.
\<close>

theorem deserialize_serialize:
  "deserializeProof (serializeProof p) = Some p
   \<and> publicInputs (the (deserializeProof (serializeProof p))) = publicInputs p
   \<and> proofBytes (the (deserializeProof (serializeProof p))) = proofBytes p
   \<and> length (proofBytes (the (deserializeProof (serializeProof p)))) = length (proofBytes p)
   \<and> isRealProof (the (deserializeProof (serializeProof p))) = isRealProof p"
proof -
  have n: "those (map json_number (map (\<lambda>b::8 word. JNumber (uint b)) (proofBytes p)))
             = Some (map uint (proofBytes p))"
    using those_map_Some [of json_number "\<lambda>i. JNumber i" "map uint (proofBytes p)"]
    by (simp add: json_number_def comp_def)
  have s: "those (map json_string (map JString (publicInputs p))) = Some (publicInputs p)"
    by (rule those_map_Some) (simp add: json_string_def)
  have w: "map word_of_int (map uint (proofBytes p)) = proofBytes p"
    by (simp add: comp_def)
  have "deserializeProof (serializeProof p) = Some p"
    unfolding deserializeProof_def serializeProof_def
    by (simp add: n s w del: map_map)
  then show ?thesis by simp
qed

theorem deserialize_serialize_witness:
  "deserializeProof (serializeProof
     \<lparr>proofBytes = [123, 255, 0], publicInputs = [''18'', ''5''], isRealProof = True\<rparr>)
   = Some \<lparr>proofBytes = [123, 255, 0], publicInputs = [''18'', ''5''], isRealProof = True\<rparr>"
  using deserialize_serialize
    [of "\<lparr>proofBytes = [123, 255, 0], publicInputs = [''18'', ''5''], isRealProof = True\<rparr>"]
  by simp

section \<open>Address derivation\<close>

lemma fold_value_cong:
  "a mod p = b mod p \<Longrightarrow> fold be_value_step bs a mod p = fold be_value_step bs b mod p"
proof (induction bs arbitrary: a b)
  case Nil then show ?case by simp
next
  case (Cons x xs)
  have "(a * 256) mod p = (b * 256) mod p"
    using Cons.prems by (rule mod_mult_cong) simp
  then have "(a * 256 + uint x) mod p = (b * 256 + uint x) mod p"
    by (rule mod_add_cong) simp
  then have "be_value_step x a mod p = be_value_step x b mod p"
    by (simp only: be_value_step_def)
  then have "fold be_value_step xs (be_value_step x a) mod p = fold be_value_step xs (be_value_step x b) mod p"
    by (rule Cons.IH)
  then show ?case by simp
qed

lemma fold_hash_step_mod:
  "fold hash_step bs h mod ED25519_CURVE_ORDER = fold be_value_step bs h mod ED25519_CURVE_ORDER"
proof (induction bs arbitrary: h)
  case Nil then show ?case by simp
next
  case (Cons x xs)
  have "fold hash_step (x # xs) h mod ED25519_CURVE_ORDER
        = fold be_value_step xs (hash_step x h) mod ED25519_CURVE_ORDER"
    using Cons.IH by simp
  also have "\<dots> = fold be_value_step xs (be_value_step x h) mod ED25519_CURVE_ORDER"
    by (rule fold_value_cong) (simp only: hash_step_def be_value_step_def mod_mod_trivial)
  finally show ?case by simp
qed

lemma fold_value_shift: "fold be_value_step bs h = h * 256 ^ length bs + fold be_value_step bs 0"
proof (induction bs arbitrary: h)
  case Nil then show ?case by simp
next
  case (Cons x xs)
  have "fold be_value_step (x # xs) h = be_value_step x h * 256 ^ length xs + fold be_value_step xs 0"
    using Cons.IH [of "be_value_step x h"] by simp
  moreover have "fold be_value_step (x # xs) 0 = be_value_step x 0 * 256 ^ length xs + fold be_value_step xs 0"
    using Cons.IH [of "be_value_step x 0"] by simp
  moreover have "be_value_step x h = h * 256 + be_value_step x 0"
    by (simp add: be_value_step_def)
  ultimately show ?case
    by (simp only: length_Cons power_Suc) (simp only: algebra_simps)
qed

lemma length_be_bytes [simp]: "length (be_bytes n h) = n"
  by (induction n arbitrary: h) simp_all

lemma uint_byte: "uint (word_of_int (h mod 256) :: 8 word) = h mod 256"
  by (simp add: uint_word_of_int_eq take_bit_eq_mod)

lemma fold_value_be_bytes: "fold be_value_step (be_bytes n h) 0 = h mod 256 ^ n"
proof (induction n arbitrary: h)
  case 0 then show ?case by simp
next
  case (Suc n)
  have "fold be_value_step (be_bytes (Suc n) h) 0
        = be_value_step (word_of_int (h mod 256)) (fold be_value_step (be_bytes n (h div 256)) 0)"
    by simp
  also have "\<dots> = be_value_step (word_of_int (h mod 256)) (h div 256 mod 256 ^ n)"
    by (simp only: Suc.IH)
  also have "\<dots> = (h div 256 mod 256 ^ n) * 256 + h mod 256"
    by (simp only: be_value_step_def uint_byte)
  also have "\<dots> = h mod (256 * 256 ^ n)"
    using zmod_zmult2_eq [of "256 ^ n" h 256] by (simp add: mult.commute)
  finally show ?case by (simp only: power_Suc)
qed

lemma order_positive: "0 < ED25519_CURVE_ORDER"
  by (simp add: ED25519_CURVE_ORDER_def)

lemma order_bounds: "2 ^ 32 < ED25519_CURVE_ORDER" "ED25519_CURVE_ORDER < 256 ^ 32"
  by (simp_all add: ED25519_CURVE_ORDER_def)

lemma length_indexBytes [simp]: "length (indexBytes i) = 4"
  by (simp add: indexBytes_def)

lemma combined_nonempty: "seed @ indexBytes i \<noteq> []"
  using length_indexBytes [of i] by (cases "indexBytes i") simp_all

lemma fold_hash_step_reduced:
  "bs \<noteq> [] \<Longrightarrow>
   fold hash_step bs h = fold be_value_step bs h mod ED25519_CURVE_ORDER"
proof -
  assume "bs \<noteq> []"
  then obtain xs x where bs: "bs = xs @ [x]"
    by (metis rev_exhaust)
  have "fold hash_step bs h mod ED25519_CURVE_ORDER = fold hash_step bs h"
    by (simp only: bs fold_append fold_simps comp_apply hash_step_def mod_mod_trivial)
  then show ?thesis
    using fold_hash_step_mod [of bs h] by simp
qed

lemma indexBytes_value:
  "0 \<le> i \<Longrightarrow> i < 2 ^ 32 \<Longrightarrow> fold be_value_step (indexBytes i) 0 = i"
  by (simp add: indexBytes_def fold_value_be_bytes)

lemma combined_hash:
  assumes "0 \<le> i" "i < 2 ^ 32"
  shows "fold hash_step (seed @ indexBytes i) 0
         = (fold be_value_step seed 0 * 2 ^ 32 + i) mod ED25519_CURVE_ORDER"
proof -
  have ne: "seed @ indexBytes i \<noteq> []"
    by (rule combined_nonempty)
  have "fold be_value_step (seed @ indexBytes i) 0
        = fold be_value_step (indexBytes i) (fold be_value_step seed 0)"
    by simp
  also have "\<dots> = fold be_value_step seed 0 * 256 ^ length (indexBytes i)
                    + fold be_value_step (indexBytes i) 0"
    by (rule fold_value_shift)
  also have "\<dots> = fold be_value_step seed 0 * 2 ^ 32 + i"
    using assms by (simp add: indexBytes_value)
  finally show ?thesis
    using fold_hash_step_reduced [OF ne, of 0] by simp
qed

lemma combined_hash_distinct:
  assumes "0 \<le> i" "i < 2 ^ 32" "0 \<le> j" "j < 2 ^ 32" "i \<noteq> j"
  shows "fold hash_step (seed @ indexBytes i) 0 \<noteq> fold hash_step (seed @ indexBytes j) 0"
proof
  assume "fold hash_step (seed @ indexBytes i) 0 = fold hash_step (seed @ indexBytes j) 0"
  then have "(fold be_value_step seed 0 * 2 ^ 32 + i) mod ED25519_CURVE_ORDER
             = (fold be_value_step seed 0 * 2 ^ 32 + j) mod ED25519_CURVE_ORDER"
    using assms by (simp only: combined_hash)
  then have "ED25519_CURVE_ORDER dvd
               (fold be_value_step seed 0 * 2 ^ 32 + i) - (fold be_value_step seed 0 * 2 ^ 32 + j)"
    by (simp only: mod_eq_dvd_iff)
  then have d: "ED25519_CURVE_ORDER dvd i - j"
    by simp
  have "i - j \<noteq> 0" using assms by simp
  with d have "\<bar>ED25519_CURVE_ORDER\<bar> \<le> \<bar>i - j\<bar>"
    by (simp add: dvd_imp_le_int)
  moreover have "\<bar>i - j\<bar> < 2 ^ 32"
    using assms by linarith
  ultimately show False
    using order_bounds(1) by linarith
qed

lemma be_bytes_32_inject:
  assumes "be_bytes 32 h = be_bytes 32 h'" "0 \<le> h" "h < 256 ^ 32" "0 \<le> h'" "h' < 256 ^ 32"
  shows "h = h'"
proof -
  have "h mod 256 ^ 32 = h' mod 256 ^ 32"
    using assms(1) fold_value_be_bytes [of 32 h] fold_value_be_bytes [of 32 h'] by simp
  then show ?thesis
    using assms by simp
qed

lemma hash_range:
  "0 \<le> fold hash_step (seed @ indexBytes i) 0 \<and> fold hash_step (seed @ indexBytes i) 0 < 256 ^ 32"
proof -
  have ne: "seed @ indexBytes i \<noteq> []"
    by (rule combined_nonempty)
  let ?v = "fold be_value_step (seed @ indexBytes i) 0"
  have "0 \<le> ?v mod ED25519_CURVE_ORDER" "?v mod ED25519_CURVE_ORDER < ED25519_CURVE_ORDER"
    using order_positive by simp_all
  then show ?thesis
    using fold_hash_step_reduced [OF ne, of 0] order_bounds(2) by linarith
qed

lemma derived_seed_distinct:
  assumes "0 \<le> i" "i < 2 ^ 32" "0 \<le> j" "j < 2 ^ 32" "i \<noteq> j"
  shows "derived_seed seed i \<noteq> derived_seed seed j"
proof
  assume "derived_seed seed i = derived_seed seed j"
  then have "be_bytes 32 (fold hash_step (seed @ indexBytes i) 0)
             = be_bytes 32 (fold hash_step (seed @ indexBytes j) 0)"
    by (simp add: derived_seed_def)
  then have "fold hash_step (seed @ indexBytes i) 0 = fold hash_step (seed @ indexBytes j) 0"
    using hash_range [of seed i] hash_range [of seed j] by (intro be_bytes_32_inject) simp_all
  then show False
    using combined_hash_distinct [OF assms] by simp
qed

lemma length_derived_seed [simp]: "length (derived_seed seed index) = 32"
  by (simp add: derived_seed_def)

lemma deriveKeypair_eq:
  "deriveKeypair lib seed index =
     Inr \<lparr>publicKey = ed25519_publicKey lib (derived_seed seed index),
          secretKey = derived_seed seed index @ ed25519_publicKey lib (derived_seed seed index)\<rparr>"
  by (simp add: deriveKeypair_def Keypair_fromSeed_def)

lemma deriveAddress_eq:
  "deriveAddress lib seed index =
     Inr (toBase58 lib (ed25519_publicKey lib (derived_seed seed index)))"
  by (simp add: deriveAddress_def deriveKeypair_eq)

text \<open>
  C5. For every seed and every two distinct indices in the range of a \<open>u32\<close>, the
  derived keypairs differ, because the 32 derived bytes differ and the keypair holds
  them. The derived addresses differ as well wherever the library's map from a 32-byte
  seed to the encoded public key is injective. The derivation is a function of the seed
  and the index: equal inputs give equal outputs.
\<close>

theorem derive_distinct:
  assumes "0 \<le> i" "i < 2 ^ 32" "0 \<le> j" "j < 2 ^ 32" "i \<noteq> j"
  shows "deriveKeypair lib seed i \<noteq> deriveKeypair lib seed j
     \<and> (inj_on (\<lambda>s. toBase58 lib (ed25519_publicKey lib s)) {s. length s = 32} \<longrightarrow>
          deriveAddress lib seed i \<noteq> deriveAddress lib seed j)
     \<and> (seed' = seed \<and> i' = i \<longrightarrow>
          deriveKeypair lib seed' i' = deriveKeypair lib seed i
          \<and> deriveAddress lib seed' i' = deriveAddress lib seed i)"
proof -
  have d: "derived_seed seed i \<noteq> derived_seed seed j"
    using assms by (rule derived_seed_distinct)
  have k: "deriveKeypair lib seed i \<noteq> deriveKeypair lib seed j"
    using d by (simp add: deriveKeypair_eq)
  have a: "deriveAddress lib seed i \<noteq> deriveAddress lib seed j"
    if "inj_on (\<lambda>s. toBase58 lib (ed25519_publicKey lib s)) {s. length s = 32}"
    using that d by (auto simp: deriveAddress_eq inj_on_def)
  show ?thesis
    using k a by blast
qed

lemma test_lib_inj: "inj_on (\<lambda>s. toBase58 test_lib (ed25519_publicKey test_lib s)) A"
proof -
  have "inj (\<lambda>b::8 word. char_of (unat b))"
  proof (rule injI)
    fix x y :: "8 word"
    assume "char_of (unat x) = char_of (unat y)"
    then have "(of_char (char_of (unat x)) :: nat) = of_char (char_of (unat y))"
      by simp
    then have "unat x mod 256 = unat y mod 256"
      by (simp only: of_char_of)
    moreover have "unat x < 256" "unat y < 256"
      using unsigned_less [of x, where ?'a = nat] unsigned_less [of y, where ?'a = nat]
      by simp_all
    ultimately show "x = y"
      by (simp add: word_unat_eq_iff)
  qed
  then have "inj (map (\<lambda>b::8 word. char_of (unat b)))"
    by simp
  then show ?thesis
    by (simp add: test_lib_def inj_on_def)
qed

theorem derive_distinct_witness:
  "deriveKeypair test_lib (replicate 32 42) 0 \<noteq> deriveKeypair test_lib (replicate 32 42) 1
   \<and> deriveAddress test_lib (replicate 32 42) 0 \<noteq> deriveAddress test_lib (replicate 32 42) 1"
  using derive_distinct [of 0 1 test_lib "replicate 32 42" "replicate 32 42" 0]
    test_lib_inj [of "{s. length s = 32}"]
  by simp

text \<open>
  C6 (as amended). \<open>deriveKeypair\<close> has no check of the seed's length: for a seed of
  any length and any index it folds the seed and the four index bytes into 32 bytes,
  which \<open>Keypair.fromSeed\<close> accepts, so the derivation returns a keypair and an address
  and never fails.
\<close>

theorem deriveKeypair_any_seed_length:
  "length (derived_seed seed index) = 32
   \<and> deriveKeypair lib seed index =
       Inr \<lparr>publicKey = ed25519_publicKey lib (derived_seed seed index),
            secretKey =
              derived_seed seed index @ ed25519_publicKey lib (derived_seed seed index)\<rparr>
   \<and> deriveAddress lib seed index =
       Inr (toBase58 lib (ed25519_publicKey lib (derived_seed seed index)))"
  by (simp add: deriveKeypair_eq deriveAddress_eq)

theorem deriveKeypair_any_seed_length_witness:
  "length (derived_seed [1, 2, 3] 7) = 32
   \<and> \<not> isl (deriveKeypair test_lib [1, 2, 3] 7)
   \<and> \<not> isl (deriveAddress test_lib [1, 2, 3] 7)"
  using deriveKeypair_any_seed_length [of "[1, 2, 3]" 7 test_lib]
  by simp

text \<open>
  C6, as the specification states it, has the derivation fail with \<open>InvalidSeedLength\<close>
  for a seed that is not 32 bytes long. For the empty seed and index 0 the code returns
  the keypair of the 32 zero bytes.
\<close>

theorem deriveKeypair_empty_seed_counterexample:
  "deriveKeypair test_lib [] 0 =
     Inr \<lparr>publicKey = replicate 32 0, secretKey = replicate 64 0\<rparr>"
proof -
  have "derived_seed [] 0 = replicate 32 0"
    by code_simp
  then show ?thesis
    by (simp add: deriveKeypair_eq test_lib_def flip: replicate_add)
qed

section \<open>Scheduler timing\<close>

lemma exponential_delay_nonneg:
  assumes "0 \<le> u" "u < 1"
  shows "0 \<le> - avgDelayMs * ln (1 - u)"
proof -
  have "ln (1 - u) \<le> 0"
    using assms by (simp add: ln_le_zero_iff)
  moreover have "0 \<le> avgDelayMs"
    by (simp add: avgDelayMs_def)
  ultimately show ?thesis
    by (simp add: mult_nonneg_nonpos)
qed

lemma js_round_nonneg: "0 \<le> x \<Longrightarrow> 0 \<le> js_round x"
  by (simp add: js_round_def)

lemma poissonDelay_nonneg:
  assumes "\<forall>k. 0 \<le> rnd k \<and> rnd k < 1"
  shows "0 \<le> poissonDelay rnd index"
  using assms exponential_delay_nonneg [of "rnd (2 * index)"]
  by (simp add: poissonDelay_def js_round_nonneg)

lemma jitter_bound:
  assumes "\<forall>k. 0 \<le> rnd k \<and> rnd k < 1"
  shows "\<bar>jitter rnd index\<bar> \<le> 30 * 60 * 1000"
proof -
  have "0 \<le> rnd (2 * index + 1)" "rnd (2 * index + 1) < 1"
    using assms by simp_all
  then show ?thesis
    by (simp add: jitter_def abs_le_iff)
qed

lemma schedule_from_shape:
  "\<exists>ws. schedule_from lib clock rnd seed i0 c0 splits = Inr ws
     \<and> length ws = length splits
     \<and> (\<forall>k < length splits.
          scheduledTime (ws ! k)
            = c0 + sum (poissonDelay rnd) {i0..<i0 + Suc k} + jitter rnd (i0 + k)
          \<and> Inr (targetAddress (ws ! k)) = deriveAddress lib seed (int (i0 + k))
          \<and> amount (ws ! k) = splits ! k
          \<and> status (ws ! k) = pending)"
proof (induction splits arbitrary: i0 c0)
  case Nil
  then show ?case by simp
next
  case (Cons a rest)
  obtain ws where ws: "schedule_from lib clock rnd seed (Suc i0) (c0 + poissonDelay rnd i0) rest
                        = Inr ws"
    and len: "length ws = length rest"
    and each: "\<And>k. k < length rest \<Longrightarrow>
          scheduledTime (ws ! k)
            = (c0 + poissonDelay rnd i0) + sum (poissonDelay rnd) {Suc i0..<Suc i0 + Suc k}
              + jitter rnd (Suc i0 + k)
          \<and> Inr (targetAddress (ws ! k)) = deriveAddress lib seed (int (Suc i0 + k))
          \<and> amount (ws ! k) = rest ! k
          \<and> status (ws ! k) = pending"
    using Cons.IH [of "Suc i0" "c0 + poissonDelay rnd i0"] by blast
  let ?w = "\<lparr>wd_id = ''WD-'' @ toString_radix 36 (clock i0) @ ''-''
                       @ toString_radix 10 (int i0),
              amount = a,
              targetAddress = toBase58 lib (ed25519_publicKey lib (derived_seed seed (int i0))),
              scheduledTime = c0 + poissonDelay rnd i0 + jitter rnd i0,
              status = pending\<rparr>"
  have run: "schedule_from lib clock rnd seed i0 c0 (a # rest) = Inr (?w # ws)"
    by (simp add: ws deriveAddress_eq)
  have "scheduledTime ((?w # ws) ! k)
            = c0 + sum (poissonDelay rnd) {i0..<i0 + Suc k} + jitter rnd (i0 + k)
          \<and> Inr (targetAddress ((?w # ws) ! k)) = deriveAddress lib seed (int (i0 + k))
          \<and> amount ((?w # ws) ! k) = (a # rest) ! k
          \<and> status ((?w # ws) ! k) = pending"
    if "k < length (a # rest)" for k
  proof (cases k)
    case 0
    then show ?thesis by (simp add: deriveAddress_eq)
  next
    case (Suc k')
    then have "k' < length rest" using that by simp
    then have e: "scheduledTime (ws ! k')
            = (c0 + poissonDelay rnd i0) + sum (poissonDelay rnd) {Suc i0..<Suc i0 + Suc k'}
              + jitter rnd (Suc i0 + k')
          \<and> Inr (targetAddress (ws ! k')) = deriveAddress lib seed (int (Suc i0 + k'))
          \<and> amount (ws ! k') = rest ! k'
          \<and> status (ws ! k') = pending"
      by (rule each)
    have "sum (poissonDelay rnd) {i0..<i0 + Suc (Suc k')}
          = poissonDelay rnd i0 + sum (poissonDelay rnd) {Suc i0..<Suc i0 + Suc k'}"
      by (simp add: sum.atLeast_Suc_lessThan)
    then show ?thesis
      using e Suc by simp
  qed
  then show ?case
    using run len by (intro exI [of _ "?w # ws"]) simp
qed

lemma cursor_Suc: "cursor now rnd (Suc k) = cursor now rnd k + poissonDelay rnd (Suc k)"
  by (simp add: cursor_def)

lemma cursor_lower:
  assumes "\<forall>k. 0 \<le> rnd k \<and> rnd k < 1"
  shows "real_of_int now + minAgingMs \<le> cursor now rnd k"
proof -
  have "0 \<le> sum (poissonDelay rnd) {0..<Suc k}"
    using assms by (intro sum_nonneg poissonDelay_nonneg)
  then show ?thesis
    by (simp add: cursor_def)
qed

text \<open>
  C9. For every fragment list and every sequence of draws in \<open>[0, 1)\<close>,
  \<open>scheduleWithdrawals\<close> returns one withdrawal per fragment. The cursor starts at
  \<open>now + 24h\<close>; every exponential delay \<open>- avgDelay * ln (1 - U)\<close> and its rounding are
  non-negative, so the cursor before jitter never decreases from one fragment to the
  next; each scheduled time is its cursor plus a jitter of at most 30 minutes in
  absolute value, hence at least \<open>now + 24h - 30min\<close>; and the target address of
  fragment \<open>k\<close> is the address derived with index \<open>k\<close>.
\<close>

theorem scheduleWithdrawals_timing:
  assumes "\<forall>k. 0 \<le> rnd k \<and> rnd k < 1"
  shows "\<exists>ws. scheduleWithdrawals lib now clock rnd splits baseAddress seed = Inr ws
     \<and> length ws = length splits
     \<and> cursor now rnd 0 = real_of_int now + 24 * 60 * 60 * 1000 + poissonDelay rnd 0
     \<and> (\<forall>k < length splits.
          0 \<le> - avgDelayMs * ln (1 - rnd (2 * k))
          \<and> 0 \<le> poissonDelay rnd k
          \<and> cursor now rnd k \<le> cursor now rnd (Suc k)
          \<and> scheduledTime (ws ! k) = cursor now rnd k + jitter rnd k
          \<and> \<bar>scheduledTime (ws ! k) - cursor now rnd k\<bar> \<le> 30 * 60 * 1000
          \<and> real_of_int now + 24 * 60 * 60 * 1000 - 30 * 60 * 1000 \<le> scheduledTime (ws ! k)
          \<and> Inr (targetAddress (ws ! k)) = deriveAddress lib seed (int k)
          \<and> amount (ws ! k) = splits ! k)"
proof -
  obtain ws where ws: "schedule_from lib clock rnd seed 0 (real_of_int now + minAgingMs) splits
                        = Inr ws"
    and len: "length ws = length splits"
    and each: "\<And>k. k < length splits \<Longrightarrow>
          scheduledTime (ws ! k)
            = (real_of_int now + minAgingMs) + sum (poissonDelay rnd) {0..<0 + Suc k}
              + jitter rnd (0 + k)
          \<and> Inr (targetAddress (ws ! k)) = deriveAddress lib seed (int (0 + k))
          \<and> amount (ws ! k) = splits ! k
          \<and> status (ws ! k) = pending"
    using schedule_from_shape [of lib clock rnd seed 0 "real_of_int now + minAgingMs" splits]
    by blast
  have c0: "cursor now rnd 0 = real_of_int now + 24 * 60 * 60 * 1000 + poissonDelay rnd 0"
    by (simp add: cursor_def minAgingMs_def)
  have "0 \<le> - avgDelayMs * ln (1 - rnd (2 * k))
          \<and> 0 \<le> poissonDelay rnd k
          \<and> cursor now rnd k \<le> cursor now rnd (Suc k)
          \<and> scheduledTime (ws ! k) = cursor now rnd k + jitter rnd k
          \<and> \<bar>scheduledTime (ws ! k) - cursor now rnd k\<bar> \<le> 30 * 60 * 1000
          \<and> real_of_int now + 24 * 60 * 60 * 1000 - 30 * 60 * 1000 \<le> scheduledTime (ws ! k)
          \<and> Inr (targetAddress (ws ! k)) = deriveAddress lib seed (int k)
          \<and> amount (ws ! k) = splits ! k"
    if k: "k < length splits" for k
  proof -
    have s: "scheduledTime (ws ! k) = cursor now rnd k + jitter rnd k"
      and t: "Inr (targetAddress (ws ! k)) = deriveAddress lib seed (int k)"
      and a: "amount (ws ! k) = splits ! k"
      using each [OF k] by (simp_all add: cursor_def)
    have d: "0 \<le> - avgDelayMs * ln (1 - rnd (2 * k))"
      using assms by (intro exponential_delay_nonneg) simp_all
    have p: "0 \<le> poissonDelay rnd k" "0 \<le> poissonDelay rnd (Suc k)"
      using assms by (simp_all add: poissonDelay_nonneg)
    have m: "cursor now rnd k \<le> cursor now rnd (Suc k)"
      using p(2) by (simp add: cursor_Suc)
    have j: "\<bar>jitter rnd k\<bar> \<le> 30 * 60 * 1000"
      using assms by (rule jitter_bound)
    have l: "real_of_int now + 24 * 60 * 60 * 1000 \<le> cursor now rnd k"
      using cursor_lower [OF assms, of now k] by (simp add: minAgingMs_def)
    show ?thesis
      using s t a d p(1) m j l by (simp add: abs_le_iff)
  qed
  then show ?thesis
    using ws len c0 unfolding scheduleWithdrawals_def by blast
qed

theorem scheduleWithdrawals_timing_witness:
  "\<exists>ws. scheduleWithdrawals test_lib 0 (\<lambda>_. 0) (\<lambda>_. 0) [1.5, 2.5] ''base'' (replicate 32 42)
          = Inr ws
     \<and> length ws = 2
     \<and> scheduledTime (ws ! 0) = cursor 0 (\<lambda>_. 0) 0 + jitter (\<lambda>_. 0) 0
     \<and> 0 + 24 * 60 * 60 * 1000 - 30 * 60 * 1000 \<le> scheduledTime (ws ! 0)
     \<and> Inr (targetAddress (ws ! 1)) = deriveAddress test_lib (replicate 32 42) 1"
proof -
  have h: "\<forall>k. 0 \<le> (\<lambda>_::nat. 0::real) k \<and> (\<lambda>_::nat. 0::real) k < 1"
    by simp
  show ?thesis
    using scheduleWithdrawals_timing
      [OF h, of test_lib 0 "\<lambda>_. 0" "[1.5, 2.5]" "''base''" "replicate 32 42"]
    by fastforce
qed

section \<open>Sum conservation of the splitter\<close>


















end
